theory Spec2Isabelle
  imports Main "HOL-Library.Word"
begin

unbundle bit_operations_syntax

section \<open>Data model\<close>

text \<open>
  The three programs \<^verbatim>\<open>bestPrice.ts\<close>, \<^verbatim>\<open>bestPriceDP.ts\<close> and
  \<^verbatim>\<open>bestPriceDPOptimized.ts\<close> share their data model. Each is a script: it reads
  \<^verbatim>\<open>shops.json\<close>, builds its index, draws the requested item ids at random from the
  items of the catalog, searches, and prints a result or exits with an error. The request
  \<^verbatim>\<open>selectedItemIds\<close> is a parameter of the functions below; reading the file and the
  command line, the random draw, printing and timing are not modelled.

  Prices are integers (the catalog generator writes integer prices, and JavaScript adds
  integers below \<open>2^53\<close> exactly); the one non-integer value the searches compute with is
  \<^verbatim>\<open>Infinity\<close>.
\<close>

datatype number = Num int | Infinity

text \<open>\<^verbatim>\<open>a < b\<close> and \<^verbatim>\<open>a >= b\<close> on numbers.\<close>

fun num_lt :: "number \<Rightarrow> number \<Rightarrow> bool" where
  "num_lt (Num a) (Num b) = (a < b)"
| "num_lt (Num a) Infinity = True"
| "num_lt Infinity b = False"

fun num_ge :: "number \<Rightarrow> number \<Rightarrow> bool" where
  "num_ge (Num a) (Num b) = (a \<ge> b)"
| "num_ge (Num a) Infinity = False"
| "num_ge Infinity b = True"

text \<open>\<^verbatim>\<open>Math.min(a, b)\<close>.\<close>

fun num_min :: "number \<Rightarrow> number \<Rightarrow> number" where
  "num_min (Num a) (Num b) = Num (min a b)"
| "num_min (Num a) Infinity = Num a"
| "num_min Infinity b = b"

text \<open>
  \<^verbatim>\<open>interface PriceOption { shop; price; shopIndex }\<close>. The price type is a
  parameter: the index construction stores whatever \<^verbatim>\<open>Number(priceStr)\<close> returns
  and never looks at it. The searches run on integer prices. (In \<^verbatim>\<open>bestPrice.ts\<close>
  the option has no \<^verbatim>\<open>shopIndex\<close> field; its search reads \<open>shop\<close> and
  \<open>price\<close> only.)
\<close>

record 'p PriceOption =
  shop :: string
  price :: 'p
  shopIndex :: nat

record Selection =
  itemId :: string
  shop :: string
  price :: int

text \<open>The elements of \<^verbatim>\<open>Result.selectedItems\<close>.\<close>

record SelectedItem =
  id' :: string
  shop :: string
  price :: int

record Stats =
  statesExplored :: nat
  statesPruned :: nat
  memoHits :: nat

record Result =
  selectedItems :: "SelectedItem list"
  totalCost :: number
  shopCount :: number
  shops :: "string list"
  stats :: "Stats option"

text \<open>
  How a run can end without a plan: \<^verbatim>\<open>console.error('Could not find a solution')\<close>
  followed by \<^verbatim>\<open>process.exit(1)\<close>, or an uncaught \<^verbatim>\<open>TypeError\<close>.
  A run that never returns is \<open>None\<close> in the functions below that can loop.
\<close>

datatype failure = NoSolution | TypeError

text \<open>
  A \<^verbatim>\<open>Set<string>\<close> keeps its elements in insertion order; \<^verbatim>\<open>add\<close> of a
  present element changes nothing, \<^verbatim>\<open>delete\<close> removes the element, \<^verbatim>\<open>size\<close>
  is the length.
\<close>

definition Set_add :: "string \<Rightarrow> string list \<Rightarrow> string list" where
  "Set_add x s = (if x \<in> set s then s else s @ [x])"

definition Set_delete :: "string \<Rightarrow> string list \<Rightarrow> string list" where
  "Set_delete x s = removeAll x s"

text \<open>\<^verbatim>\<open>new Set(xs)\<close>, then \<^verbatim>\<open>Array.from\<close>.\<close>

definition Set_of :: "string list \<Rightarrow> string list" where
  "Set_of xs = fold Set_add xs []"

section \<open>Catalog index\<close>

text \<open>
  \<^verbatim>\<open>Object.entries(shopsData)\<close> is a list of (shop name, items); every item is an
  object of which \<^verbatim>\<open>Object.entries(itemObj)[0]\<close> is read, so an item is the list of
  its entries. Destructuring the first entry of an empty object throws a
  \<^verbatim>\<open>TypeError\<close>. \<^verbatim>\<open>Number\<close> is JavaScript's conversion, a parameter here.
\<close>

type_synonym itemObj = "(string \<times> string) list"
type_synonym shopsData = "(string \<times> itemObj list) list"

record 'p Index =
  itemToShops :: "string \<rightharpoonup> 'p PriceOption list"
  shopList :: "string list"
  shopNameToIndex :: "string \<rightharpoonup> nat"

text \<open>The inner loop \<^verbatim>\<open>for (const itemObj of items)\<close> of one shop.\<close>

fun add_items ::
  "(string \<Rightarrow> 'p) \<Rightarrow> string \<Rightarrow> nat \<Rightarrow> itemObj list \<Rightarrow>
   (string \<rightharpoonup> 'p PriceOption list) \<Rightarrow> failure + (string \<rightharpoonup> 'p PriceOption list)"
where
  "add_items Number shopName k [] m = Inr m"
| "add_items Number shopName k (itemObj # items) m =
     (case itemObj of
        [] \<Rightarrow> Inl TypeError
      | (ident, priceStr) # _ \<Rightarrow>
          let price = Number priceStr;
              m1 = (if m ident = None then m(ident \<mapsto> []) else m);
              opts = (case m1 ident of Some os \<Rightarrow> os | None \<Rightarrow> [])
          in add_items Number shopName k items
               (m1(ident \<mapsto> opts @ [\<lparr>PriceOption.shop = shopName, price = price, shopIndex = k\<rparr>])))"

text \<open>The outer loop \<^verbatim>\<open>for (const [shopName, items] of Object.entries(shopsData))\<close>.\<close>

fun add_shops :: "(string \<Rightarrow> 'p) \<Rightarrow> shopsData \<Rightarrow> 'p Index \<Rightarrow> failure + 'p Index" where
  "add_shops Number [] ix = Inr ix"
| "add_shops Number ((shopName, items) # rest) ix =
     (let ix1 = (if shopNameToIndex ix shopName = None
                 then ix\<lparr>shopNameToIndex := (shopNameToIndex ix)(shopName \<mapsto> length (shopList ix)),
                         shopList := shopList ix @ [shopName]\<rparr>
                 else ix);
          k = (case shopNameToIndex ix1 shopName of Some k \<Rightarrow> k | None \<Rightarrow> 0)
      in case add_items Number shopName k items (itemToShops ix1) of
           Inl e \<Rightarrow> Inl e
         | Inr m \<Rightarrow> add_shops Number rest (ix1\<lparr>itemToShops := m\<rparr>))"

definition build_index :: "(string \<Rightarrow> 'p) \<Rightarrow> shopsData \<Rightarrow> failure + 'p Index" where
  "build_index Number shopsData =
     add_shops Number shopsData
       \<lparr>itemToShops = Map.empty, shopList = [], shopNameToIndex = Map.empty\<rparr>"

text \<open>
  \<^verbatim>\<open>selectedItemIds[index]\<close> followed by \<^verbatim>\<open>itemToShops.get(itemId)\<close>: reading past
  the end gives \<^verbatim>\<open>undefined\<close>, which is no key of the map.
\<close>

definition get_options ::
  "(string \<rightharpoonup> 'p PriceOption list) \<Rightarrow> string list \<Rightarrow> nat \<Rightarrow> 'p PriceOption list option"
where
  "get_options its ids index = (if index < length ids then its (ids ! index) else None)"

section \<open>Vendor masks\<close>

text \<open>
  The masks are JavaScript's 32-bit signed integers: \<^verbatim>\<open>1 << k\<close> shifts by
  \<open>k mod 32\<close>, and \<^verbatim>\<open>n >>= 1\<close> keeps the sign bit.
\<close>

definition shop_bit :: "nat \<Rightarrow> 32 word" where
  "shop_bit k = push_bit (k mod 32) 1"

text \<open>
  \<^verbatim>\<open>function popcount(n) { let count = 0; while (n) { count += n & 1; n >>= 1; } return count; }\<close>
  The loop need not end, so not returning is \<open>None\<close>.
\<close>

partial_function (option) popcount_loop :: "32 word \<Rightarrow> nat \<Rightarrow> nat option" where
  "popcount_loop n count =
     (if n = 0 then Some count
      else popcount_loop (signed_drop_bit 1 n) (count + unat (n AND 1)))"

declare popcount_loop.simps [code]

definition popcount :: "32 word \<Rightarrow> nat option" where
  "popcount n = popcount_loop n 0"

section \<open>Brute force (\<^verbatim>\<open>bestPrice.ts\<close>)\<close>

text \<open>The module variables \<^verbatim>\<open>bestCost\<close>, \<^verbatim>\<open>bestShopCount\<close>, \<^verbatim>\<open>bestSelection\<close>.\<close>

record BF =
  bestCost :: number
  bestShopCount :: number
  bestSelection :: "Selection list"

text \<open>
  \<^verbatim>\<open>backtrack(index, currentSelection, currentCost, shopsUsedSet)\<close>. The array
  \<open>currentSelection\<close> and the set \<open>shopsUsedSet\<close> are shared objects that the calls
  mutate, so a call returns them with the module variables. \<open>backtrack_for\<close> is the loop
  \<^verbatim>\<open>for (const opt of options)\<close>: push and add, recurse, then pop and delete.
\<close>

function backtrack ::
    "(string \<rightharpoonup> int PriceOption list) \<Rightarrow> string list \<Rightarrow> nat \<Rightarrow> Selection list \<Rightarrow> int \<Rightarrow>
     string list \<Rightarrow> BF \<Rightarrow> Selection list \<times> string list \<times> BF"
  and backtrack_for ::
    "(string \<rightharpoonup> int PriceOption list) \<Rightarrow> string list \<Rightarrow> nat \<Rightarrow> int PriceOption list \<Rightarrow>
     Selection list \<Rightarrow> int \<Rightarrow> string list \<Rightarrow> BF \<Rightarrow> Selection list \<times> string list \<times> BF"
where
  "backtrack its ids index currentSelection currentCost shopsUsedSet g =
     (if index = length ids then
        (let shopCount' = int (length shopsUsedSet)
         in (currentSelection, shopsUsedSet,
             if num_lt (Num currentCost) (BF.bestCost g) \<or>
                (Num currentCost = BF.bestCost g \<and> num_lt (Num shopCount') (BF.bestShopCount g))
             then \<lparr>BF.bestCost = Num currentCost, bestShopCount = Num shopCount',
                   bestSelection = currentSelection\<rparr>
             else g))
      else
        (case get_options its ids index of
           None \<Rightarrow> (currentSelection, shopsUsedSet, g)
         | Some options \<Rightarrow>
             backtrack_for its ids index options currentSelection currentCost shopsUsedSet g))"
| "backtrack_for its ids index [] currentSelection currentCost shopsUsedSet g =
     (currentSelection, shopsUsedSet, g)"
| "backtrack_for its ids index (opt # rest) currentSelection currentCost shopsUsedSet g =
     (case backtrack its ids (index + 1)
             (currentSelection @
                [\<lparr>itemId = ids ! index, shop = PriceOption.shop opt, price = PriceOption.price opt\<rparr>])
             (currentCost + PriceOption.price opt)
             (Set_add (PriceOption.shop opt) shopsUsedSet) g of
        (currentSelection1, shopsUsedSet1, g1) \<Rightarrow>
          backtrack_for its ids index rest (butlast currentSelection1) currentCost
            (Set_delete (PriceOption.shop opt) shopsUsedSet1) g1)"
  by pat_completeness auto
termination
  by (relation "inv_image (less_than <*lex*> less_than)
        (\<lambda>x. case x of
           Inl (its, ids, index, cs, cc, su, g) \<Rightarrow>
             (if index < length ids then 2 * (length ids - index) + 1 else 1, 0)
         | Inr (its, ids, index, opts, cs, cc, su, g) \<Rightarrow>
             (if index < length ids then 2 * (length ids - index) else 2, length opts))")
     (auto simp: get_options_def split: if_splits)

declare backtrack.simps [simp del] backtrack_for.simps [simp del]

text \<open>
  The script after the definitions: run the search from the initial module variables, exit
  with an error when \<open>bestSelection\<close> is empty, otherwise emit the result.
\<close>

definition bestPrice :: "(string \<rightharpoonup> int PriceOption list) \<Rightarrow> string list \<Rightarrow> failure + Result" where
  "bestPrice its selectedItemIds =
     (case backtrack its selectedItemIds 0 [] 0 []
             \<lparr>BF.bestCost = Infinity, bestShopCount = Infinity, bestSelection = []\<rparr> of
        (_, _, g) \<Rightarrow>
          if length (bestSelection g) = 0 then Inl NoSolution
          else Inr \<lparr>selectedItems =
                      map (\<lambda>s. \<lparr>id' = itemId s, shop = Selection.shop s, price = Selection.price s\<rparr>)
                        (bestSelection g),
                    totalCost = BF.bestCost g,
                    shopCount = BF.bestShopCount g,
                    shops = Set_of (map Selection.shop (bestSelection g)),
                    stats = None\<rparr>)"

section \<open>Memoized search (\<^verbatim>\<open>bestPriceDP.ts\<close>)\<close>

record DPState =
  cost :: number
  selection :: "Selection list"
  shops :: "32 word"

text \<open>
  \<^verbatim>\<open>stateKey\<close> prints both numbers into a string, which is injective on the pair; the
  key is the pair.
\<close>

definition stateKey :: "nat \<Rightarrow> 32 word \<Rightarrow> nat \<times> 32 word" where
  "stateKey itemIndex shopsBitmask = (itemIndex, shopsBitmask)"

text \<open>The loop variables \<^verbatim>\<open>bestOption\<close>, \<^verbatim>\<open>bestCost\<close>, \<^verbatim>\<open>bestShopCount\<close> of \<^verbatim>\<open>dp\<close>.\<close>

record BestOption =
  itemId :: string
  shop :: string
  price :: int
  futureState :: DPState
  newShopsBitmask :: "32 word"

record DPLoop =
  bestOption :: "BestOption option"
  bestCost :: number
  bestShopCount :: number

text \<open>
  \<^verbatim>\<open>dp(itemIndex, shopsBitmask)\<close> with the module's \<^verbatim>\<open>memo\<close> passed in and
  returned. \<open>dp_for\<close> is the loop \<^verbatim>\<open>for (const option of options)\<close>. The result
  is \<open>None\<close> when a \<^verbatim>\<open>popcount\<close> on the way never returns.
\<close>

function dp ::
    "(string \<rightharpoonup> int PriceOption list) \<Rightarrow> string list \<Rightarrow> nat \<Rightarrow> 32 word \<Rightarrow>
     (nat \<times> 32 word \<rightharpoonup> DPState) \<Rightarrow> (DPState \<times> (nat \<times> 32 word \<rightharpoonup> DPState)) option"
  and dp_for ::
    "(string \<rightharpoonup> int PriceOption list) \<Rightarrow> string list \<Rightarrow> nat \<Rightarrow> 32 word \<Rightarrow>
     int PriceOption list \<Rightarrow> DPLoop \<Rightarrow> (nat \<times> 32 word \<rightharpoonup> DPState) \<Rightarrow>
     (DPLoop \<times> (nat \<times> 32 word \<rightharpoonup> DPState)) option"
where
  "dp its ids itemIndex shopsBitmask memo =
     (if itemIndex = length ids then
        Some (\<lparr>cost = Num 0, selection = [], shops = shopsBitmask\<rparr>, memo)
      else
        (let key = stateKey itemIndex shopsBitmask in
         case memo key of
           Some r \<Rightarrow> Some (r, memo)
         | None \<Rightarrow>
            (case get_options its ids itemIndex of
               None \<Rightarrow>
                 (let result = \<lparr>cost = Infinity, selection = [], shops = shopsBitmask\<rparr>
                  in Some (result, memo(key \<mapsto> result)))
             | Some options \<Rightarrow>
                 if length options = 0 then
                   (let result = \<lparr>cost = Infinity, selection = [], shops = shopsBitmask\<rparr>
                    in Some (result, memo(key \<mapsto> result)))
                 else
                   (case dp_for its ids itemIndex shopsBitmask options
                           \<lparr>bestOption = None, bestCost = Infinity, bestShopCount = Infinity\<rparr>
                           memo of
                      None \<Rightarrow> None
                    | Some (l, memo1) \<Rightarrow>
                        (case bestOption l of
                           None \<Rightarrow>
                             (let result =
                                    \<lparr>cost = Infinity, selection = [], shops = shopsBitmask\<rparr>
                              in Some (result, memo1(key \<mapsto> result)))
                         | Some b \<Rightarrow>
                             (let result =
                                    \<lparr>cost = DPLoop.bestCost l,
                                     selection =
                                       \<lparr>Selection.itemId = BestOption.itemId b, shop = BestOption.shop b,
                                        price = BestOption.price b\<rparr>
                                       # selection (futureState b),
                                     shops = newShopsBitmask b\<rparr>
                              in Some (result, memo1(key \<mapsto> result))))))))"
| "dp_for its ids itemIndex shopsBitmask [] l memo = Some (l, memo)"
| "dp_for its ids itemIndex shopsBitmask (option # rest) l memo =
     (let newShopsBitmask' = shopsBitmask OR shop_bit (shopIndex option) in
      case dp its ids (itemIndex + 1) newShopsBitmask' memo of
        None \<Rightarrow> None
      | Some (futureState', memo1) \<Rightarrow>
         (case cost futureState' of
            Infinity \<Rightarrow> dp_for its ids itemIndex shopsBitmask rest l memo1
          | Num futureCost \<Rightarrow>
             (let totalCost' = PriceOption.price option + futureCost in
              case popcount newShopsBitmask' of
                None \<Rightarrow> None
              | Some shopCount' \<Rightarrow>
                  dp_for its ids itemIndex shopsBitmask rest
                    (if num_lt (Num totalCost') (DPLoop.bestCost l) \<or>
                        (Num totalCost' = DPLoop.bestCost l \<and>
                         num_lt (Num (int shopCount')) (DPLoop.bestShopCount l))
                     then \<lparr>bestOption =
                             Some \<lparr>itemId = ids ! itemIndex, shop = PriceOption.shop option,
                                   price = PriceOption.price option, futureState = futureState',
                                   newShopsBitmask = newShopsBitmask'\<rparr>,
                           bestCost = Num totalCost',
                           bestShopCount = Num (int shopCount')\<rparr>
                     else l)
                    memo1)))"
  by pat_completeness auto
termination
  by (relation "inv_image (less_than <*lex*> less_than)
        (\<lambda>x. case x of
           Inl (its, ids, itemIndex, m, memo) \<Rightarrow>
             (if itemIndex < length ids then 2 * (length ids - itemIndex) + 1 else 1, 0)
         | Inr (its, ids, itemIndex, m, opts, l, memo) \<Rightarrow>
             (if itemIndex < length ids then 2 * (length ids - itemIndex) else 2, length opts))")
     (auto simp: get_options_def split: if_splits)

declare dp.simps [simp del] dp_for.simps [simp del]

text \<open>
  The script after \<^verbatim>\<open>dp\<close>: \<^verbatim>\<open>dp(0, 0)\<close>, the exit on an infinite cost, the shop
  count and the shop names read off the mask \<^verbatim>\<open>dpResult.shops\<close>.
\<close>

definition bestPriceDP ::
  "int Index \<Rightarrow> string list \<Rightarrow> (failure + Result) option"
where
  "bestPriceDP ix selectedItemIds =
     (case dp (itemToShops ix) selectedItemIds 0 0 Map.empty of
        None \<Rightarrow> None
      | Some (dpResult, _) \<Rightarrow>
          if cost dpResult = Infinity then Some (Inl NoSolution)
          else
            (case popcount (DPState.shops dpResult) of
               None \<Rightarrow> None
             | Some shopCount' \<Rightarrow>
                 Some (Inr \<lparr>selectedItems =
                             map (\<lambda>s. \<lparr>id' = Selection.itemId s, shop = Selection.shop s,
                                       price = Selection.price s\<rparr>)
                               (selection dpResult),
                           totalCost = cost dpResult,
                           shopCount = Num (int shopCount'),
                           shops = map (\<lambda>i. shopList ix ! i)
                                     (filter (\<lambda>i. DPState.shops dpResult AND shop_bit i \<noteq> 0)
                                        [0..<length (shopList ix)]),
                           stats = None\<rparr>)))"

section \<open>Branch and bound (\<^verbatim>\<open>bestPriceDPOptimized.ts\<close>)\<close>

text \<open>
  \<^verbatim>\<open>getGreedyUpperBound\<close>: the inner loop keeps the first option of least price;
  items without options are skipped. The result \<^verbatim>\<open>{ cost, shopCount }\<close> is the pair.
\<close>

definition cheapest_option :: "int PriceOption \<Rightarrow> int PriceOption list \<Rightarrow> int PriceOption" where
  "cheapest_option first options =
     fold (\<lambda>opt cheapest. if PriceOption.price opt < PriceOption.price cheapest then opt else cheapest)
       options first"

definition greedy_step ::
  "(string \<rightharpoonup> int PriceOption list) \<Rightarrow> string \<Rightarrow> int \<times> string list \<Rightarrow> int \<times> string list"
where
  "greedy_step its item acc =
     (case acc of (totalCost', shopsUsed) \<Rightarrow>
        (case its item of
           None \<Rightarrow> acc
         | Some options \<Rightarrow>
            (case options of
               [] \<Rightarrow> acc
             | first # _ \<Rightarrow>
                 (let cheapest = cheapest_option first options
                  in (totalCost' + PriceOption.price cheapest,
                      Set_add (PriceOption.shop cheapest) shopsUsed)))))"

definition getGreedyUpperBound ::
  "(string \<rightharpoonup> int PriceOption list) \<Rightarrow> string list \<Rightarrow> int \<times> nat"
where
  "getGreedyUpperBound its itemIds =
     (case fold (greedy_step its) itemIds (0, []) of
        (totalCost', shopsUsed) \<Rightarrow> (totalCost', length shopsUsed))"

text \<open>
  \<^verbatim>\<open>getLowerBound(itemIds, startIndex)\<close>: the loop over \<open>i = startIndex, ...,
  length - 1\<close>; \<^verbatim>\<open>Math.min(...prices)\<close> of a non-empty array is its least element.
\<close>

definition getLowerBound ::
  "(string \<rightharpoonup> int PriceOption list) \<Rightarrow> string list \<Rightarrow> nat \<Rightarrow> int"
where
  "getLowerBound its itemIds startIndex =
     fold (\<lambda>i minCost.
             case its (itemIds ! i) of
               None \<Rightarrow> minCost
             | Some options \<Rightarrow>
                 if length options = 0 then minCost
                 else minCost + min_list (map PriceOption.price options))
       [startIndex..<length itemIds] 0"

record DP =
  memo :: "nat \<times> 32 word \<rightharpoonup> number"
  bestCost :: number
  bestShopCount :: number
  statesExplored :: nat
  statesPruned :: nat
  memoHits :: nat

definition dpState :: DP where
  "dpState = \<lparr>memo = Map.empty, bestCost = Infinity, bestShopCount = Infinity,
              statesExplored = 0, statesPruned = 0, memoHits = 0\<rparr>"

text \<open>
  \<^verbatim>\<open>dp(itemIndex, shopsBitmask, currentCost)\<close> of \<^verbatim>\<open>bestPriceDPOptimized.ts\<close>, with
  the object \<^verbatim>\<open>dpState\<close> passed in and returned; \<open>dpOptimized_for\<close> is the loop over
  \<^verbatim>\<open>sortedOptions\<close> with its variable \<^verbatim>\<open>bestFutureCost\<close>. \<open>None\<close> when
  \<^verbatim>\<open>popcount\<close> never returns.
\<close>

function dpOptimized ::
    "(string \<rightharpoonup> int PriceOption list) \<Rightarrow> string list \<Rightarrow> nat \<Rightarrow> 32 word \<Rightarrow> int \<Rightarrow> DP \<Rightarrow>
     (number \<times> DP) option"
  and dpOptimized_for ::
    "(string \<rightharpoonup> int PriceOption list) \<Rightarrow> string list \<Rightarrow> nat \<Rightarrow> 32 word \<Rightarrow> int \<Rightarrow>
     int PriceOption list \<Rightarrow> number \<Rightarrow> DP \<Rightarrow> (number \<times> DP) option"
where
  "dpOptimized its ids itemIndex shopsBitmask currentCost s =
     (if num_ge (Num currentCost) (bestCost s) then
        Some (Infinity, s\<lparr>statesPruned := statesPruned s + 1\<rparr>)
      else if itemIndex = length ids then
        (case popcount shopsBitmask of
           None \<Rightarrow> None
         | Some shopCount' \<Rightarrow>
             Some (Num 0,
                   if num_lt (Num currentCost) (bestCost s) \<or>
                      (Num currentCost = bestCost s \<and> num_lt (Num (int shopCount')) (bestShopCount s))
                   then s\<lparr>bestCost := Num currentCost, bestShopCount := Num (int shopCount')\<rparr>
                   else s))
      else
        (let key = stateKey itemIndex shopsBitmask in
         case memo s key of
           Some v \<Rightarrow> Some (v, s\<lparr>memoHits := memoHits s + 1\<rparr>)
         | None \<Rightarrow>
            (let s1 = s\<lparr>statesExplored := statesExplored s + 1\<rparr> in
             case get_options its ids itemIndex of
               None \<Rightarrow> Some (Infinity, s1\<lparr>memo := (memo s1)(key \<mapsto> Infinity)\<rparr>)
             | Some options \<Rightarrow>
                 if length options = 0 then
                   Some (Infinity, s1\<lparr>memo := (memo s1)(key \<mapsto> Infinity)\<rparr>)
                 else
                   (let lowerBound = getLowerBound its ids itemIndex in
                    if num_ge (Num (currentCost + lowerBound)) (bestCost s1) then
                      Some (Infinity,
                            s1\<lparr>statesPruned := statesPruned s1 + 1,
                               memo := (memo s1)(key \<mapsto> Infinity)\<rparr>)
                    else
                      (case dpOptimized_for its ids itemIndex shopsBitmask currentCost
                              (sort_key PriceOption.price options) Infinity s1 of
                         None \<Rightarrow> None
                       | Some (bestFutureCost, s2) \<Rightarrow>
                           Some (bestFutureCost,
                                 s2\<lparr>memo := (memo s2)(key \<mapsto> bestFutureCost)\<rparr>))))))"
| "dpOptimized_for its ids itemIndex shopsBitmask currentCost [] bestFutureCost s =
     Some (bestFutureCost, s)"
| "dpOptimized_for its ids itemIndex shopsBitmask currentCost (option # rest) bestFutureCost s =
     (let optionCost = currentCost + PriceOption.price option in
      if num_ge (Num optionCost) (bestCost s) then
        dpOptimized_for its ids itemIndex shopsBitmask currentCost rest bestFutureCost
          (s\<lparr>statesPruned := statesPruned s + 1\<rparr>)
      else
        (let newShopsBitmask' = shopsBitmask OR shop_bit (shopIndex option) in
         case dpOptimized its ids (itemIndex + 1) newShopsBitmask' optionCost s of
           None \<Rightarrow> None
         | Some (futureCost, s1) \<Rightarrow>
             if futureCost = Infinity then
               dpOptimized_for its ids itemIndex shopsBitmask currentCost rest bestFutureCost s1
             else
               dpOptimized_for its ids itemIndex shopsBitmask currentCost rest
                 (num_min bestFutureCost futureCost) s1))"
  by pat_completeness auto
termination
  by (relation "inv_image (less_than <*lex*> less_than)
        (\<lambda>x. case x of
           Inl (its, ids, itemIndex, m, c, s) \<Rightarrow>
             (if itemIndex < length ids then 2 * (length ids - itemIndex) + 1 else 1, 0)
         | Inr (its, ids, itemIndex, m, c, opts, b, s) \<Rightarrow>
             (if itemIndex < length ids then 2 * (length ids - itemIndex) else 2, length opts))")
     (auto simp: get_options_def split: if_splits)

declare dpOptimized.simps [simp del] dpOptimized_for.simps [simp del]

text \<open>\<^verbatim>\<open>testCost + remainingLower <= dpState.bestCost + 0.01\<close>, on integers.\<close>

fun within_tolerance :: "int \<Rightarrow> number \<Rightarrow> bool" where
  "within_tolerance x (Num b) = (100 * x \<le> 100 * b + 1)"
| "within_tolerance x Infinity = True"

text \<open>
  The closure \<^verbatim>\<open>reconstruct(index, mask, cost)\<close>; it pushes onto
  \<^verbatim>\<open>optimalSelection\<close> and assigns \<^verbatim>\<open>currentMask\<close>, which are passed in and
  returned. Spreading the options of an item that the map does not have throws a
  \<^verbatim>\<open>TypeError\<close>.
\<close>

function reconstruct ::
    "(string \<rightharpoonup> int PriceOption list) \<Rightarrow> string list \<Rightarrow> number \<Rightarrow> nat \<Rightarrow> 32 word \<Rightarrow> int \<Rightarrow>
     Selection list \<times> 32 word \<Rightarrow> failure + Selection list \<times> 32 word"
  and reconstruct_for ::
    "(string \<rightharpoonup> int PriceOption list) \<Rightarrow> string list \<Rightarrow> number \<Rightarrow> nat \<Rightarrow> 32 word \<Rightarrow> int \<Rightarrow>
     int PriceOption list \<Rightarrow> Selection list \<times> 32 word \<Rightarrow> failure + Selection list \<times> 32 word"
where
  "reconstruct its ids best index m c st =
     (if index = length ids then Inr st
      else
        (case get_options its ids index of
           None \<Rightarrow> Inl TypeError
         | Some options \<Rightarrow>
             reconstruct_for its ids best index m c (sort_key PriceOption.price options) st))"
| "reconstruct_for its ids best index m c [] st = Inr st"
| "reconstruct_for its ids best index m c (option # rest) st =
     (let newMask = m OR shop_bit (shopIndex option);
          testCost = c + PriceOption.price option;
          remainingLower = getLowerBound its ids (index + 1)
      in if within_tolerance (testCost + remainingLower) best then
           reconstruct its ids best (index + 1) newMask testCost
             (fst st @ [\<lparr>Selection.itemId = ids ! index, shop = PriceOption.shop option,
                         price = PriceOption.price option\<rparr>],
              newMask)
         else reconstruct_for its ids best index m c rest st)"
  by pat_completeness auto
termination
  by (relation "inv_image (less_than <*lex*> less_than)
        (\<lambda>x. case x of
           Inl (its, ids, best, index, m, c, st) \<Rightarrow>
             (if index < length ids then 2 * (length ids - index) + 1 else 1, 0)
         | Inr (its, ids, best, index, m, c, opts, st) \<Rightarrow>
             (if index < length ids then 2 * (length ids - index) else 2, length opts))")
     (auto simp: get_options_def split: if_splits)

declare reconstruct.simps [simp del] reconstruct_for.simps [simp del]

text \<open>
  The script: prime \<^verbatim>\<open>dpState\<close> from the greedy bound, run \<^verbatim>\<open>dp(0, 0, 0)\<close>, exit
  when \<^verbatim>\<open>bestCost\<close> is infinite, reconstruct, emit. (The constants \<^verbatim>\<open>shopCount\<close>
  and \<^verbatim>\<open>shopsUsed\<close> that the script also computes are read by nothing; the
  \<^verbatim>\<open>popcount\<close> behind the first is applied to the size of a set, which is not
  negative, so it returns.)
\<close>

definition bestPriceDPOptimized ::
  "(string \<rightharpoonup> int PriceOption list) \<Rightarrow> string list \<Rightarrow> (failure + Result) option"
where
  "bestPriceDPOptimized its selectedItemIds =
     (case getGreedyUpperBound its selectedItemIds of
        (greedyCost, greedyShopCount) \<Rightarrow>
          (case dpOptimized its selectedItemIds 0 0 0
                  (dpState\<lparr>bestCost := Num greedyCost,
                           bestShopCount := Num (int greedyShopCount)\<rparr>) of
             None \<Rightarrow> None
           | Some (_, s) \<Rightarrow>
               if bestCost s = Infinity then Some (Inl NoSolution)
               else
                 (case reconstruct its selectedItemIds (bestCost s) 0 0 0 ([], 0) of
                    Inl e \<Rightarrow> Some (Inl e)
                  | Inr (optimalSelection, currentMask) \<Rightarrow>
                      Some (Inr \<lparr>selectedItems =
                                  map (\<lambda>s. \<lparr>id' = Selection.itemId s, shop = Selection.shop s,
                                            price = Selection.price s\<rparr>)
                                    optimalSelection,
                                totalCost = bestCost s,
                                shopCount =
                                  (if length optimalSelection > 0
                                   then Num (int (length (Set_of (map Selection.shop optimalSelection))))
                                   else Num 0),
                                shops = Set_of (map Selection.shop optimalSelection),
                                stats = Some \<lparr>Stats.statesExplored = statesExplored s,
                                              statesPruned = statesPruned s,
                                              memoHits = memoHits s\<rparr>\<rparr>))))"

section \<open>The exhaustive oracle\<close>

text \<open>
  A combination assigns to every requested item one of the options listed for it; its cost
  is the sum of the chosen prices and its vendor count the number of distinct shops.
\<close>

definition option_lists ::
  "(string \<rightharpoonup> int PriceOption list) \<Rightarrow> string list \<Rightarrow> int PriceOption list list"
where
  "option_lists its ids = map (\<lambda>i. case its i of None \<Rightarrow> [] | Some os \<Rightarrow> os) ids"

definition combinations ::
  "(string \<rightharpoonup> int PriceOption list) \<Rightarrow> string list \<Rightarrow> int PriceOption list list"
where
  "combinations its ids = product_lists (option_lists its ids)"

definition plan_cost :: "int PriceOption list \<Rightarrow> int" where
  "plan_cost combo = sum_list (map PriceOption.price combo)"

definition vendor_count :: "int PriceOption list \<Rightarrow> nat" where
  "vendor_count combo = card (set (map PriceOption.shop combo))"

definition oracle_cost :: "(string \<rightharpoonup> int PriceOption list) \<Rightarrow> string list \<Rightarrow> int" where
  "oracle_cost its ids = Min (plan_cost ` set (combinations its ids))"

definition oracle_vendor_count :: "(string \<rightharpoonup> int PriceOption list) \<Rightarrow> string list \<Rightarrow> nat" where
  "oracle_vendor_count its ids =
     Min (vendor_count `
            set (filter (\<lambda>c. plan_cost c = oracle_cost its ids) (combinations its ids)))"

text \<open>
  The cheapest listed price of an item; an item without options has none and counts as 0,
  as it does in \<^verbatim>\<open>getLowerBound\<close> and \<^verbatim>\<open>getGreedyUpperBound\<close>, which skip it.
\<close>

definition cheapest_price :: "(string \<rightharpoonup> int PriceOption list) \<Rightarrow> string \<Rightarrow> int" where
  "cheapest_price its i =
     (case its i of
        None \<Rightarrow> 0
      | Some os \<Rightarrow> if os = [] then 0 else Min (PriceOption.price ` set os))"

definition has_options :: "(string \<rightharpoonup> int PriceOption list) \<Rightarrow> string list \<Rightarrow> bool" where
  "has_options its ids = (\<forall>i \<in> set ids. case its i of None \<Rightarrow> False | Some os \<Rightarrow> os \<noteq> [])"

section \<open>The search with its pruning rules switched off\<close>



text \<open>The state that the script hands to the search: \<^verbatim>\<open>dpState\<close> primed from the greedy bound.\<close>

definition primed :: "(string \<rightharpoonup> int PriceOption list) \<Rightarrow> string list \<Rightarrow> DP" where
  "primed its ids =
     (case getGreedyUpperBound its ids of
        (greedyCost, greedyShopCount) \<Rightarrow>
          dpState\<lparr>bestCost := Num greedyCost, bestShopCount := Num (int greedyShopCount)\<rparr>)"

section \<open>Example catalogs\<close>

text \<open>
  \<^verbatim>\<open>Number(priceStr)\<close> on the strings the examples use: an optional minus sign
  followed by decimal digits denotes that integer, and a string that is no numeric literal
  gives \<^verbatim>\<open>NaN\<close>. (JavaScript reads more literal forms as numbers, such as fractions,
  exponents and surrounding blanks; they are outside this function and occur in no
  example.) \<open>Number_int\<close> is its restriction to the strings that denote integers.
\<close>

datatype numeric = NaN | Finite int

definition is_digit :: "char \<Rightarrow> bool" where
  "is_digit c = ((48::nat) \<le> of_char c \<and> of_char c \<le> (57::nat))"

definition digits_value :: "string \<Rightarrow> int" where
  "digits_value ds = fold (\<lambda>c n. 10 * n + (int (of_char c) - 48)) ds 0"

definition Number_dec :: "string \<Rightarrow> numeric" where
  "Number_dec s =
     (case s of
        [] \<Rightarrow> NaN
      | c # ds \<Rightarrow>
          if c = CHR ''-'' then
            (if ds \<noteq> [] \<and> list_all is_digit ds then Finite (- digits_value ds) else NaN)
          else if list_all is_digit s then Finite (digits_value s) else NaN)"

definition Number_int :: "string \<Rightarrow> int" where
  "Number_int s = (case Number_dec s of Finite i \<Rightarrow> i | NaN \<Rightarrow> 0)"

text \<open>The index that the scripts build from a catalog whose item objects are well formed.\<close>

definition index_of :: "shopsData \<Rightarrow> int Index" where
  "index_of d =
     (case build_index Number_int d of
        Inr ix \<Rightarrow> ix
      | Inl _ \<Rightarrow> \<lparr>itemToShops = Map.empty, shopList = [], shopNameToIndex = Map.empty\<rparr>)"

text \<open>
  \<^verbatim>\<open>{"V1": [{"A": "10"}, {"B": "6"}], "V2": [{"B": "5"}]}\<close> and
  \<^verbatim>\<open>{"V1": [{"A": "10"}], "V2": [{"A": "10"}, {"B": "5"}]}\<close>.
\<close>

definition shops1 :: shopsData where
  "shops1 = [(''V1'', [[(''A'', ''10'')], [(''B'', ''6'')]]), (''V2'', [[(''B'', ''5'')]])]"

definition shops2 :: shopsData where
  "shops2 = [(''V1'', [[(''A'', ''10'')]]), (''V2'', [[(''A'', ''10'')], [(''B'', ''5'')]])]"

text \<open>
  Catalogs of many shops \<^verbatim>\<open>shop00\<close>, \<^verbatim>\<open>shop01\<close>, ...: in \<open>shops32\<close> the first 31
  shops sell nothing and \<^verbatim>\<open>shop31\<close> sells item \<^verbatim>\<open>A\<close> at 1; in \<open>shops33\<close>
  \<^verbatim>\<open>shop00\<close> sells \<^verbatim>\<open>A\<close> at 5, \<^verbatim>\<open>shop32\<close> sells \<^verbatim>\<open>B\<close> at 7 and the
  shops between sell nothing.
\<close>

definition shop_name :: "nat \<Rightarrow> string" where
  "shop_name i = ''shop'' @ [char_of (48 + i div 10), char_of (48 + i mod 10)]"

definition shops32 :: shopsData where
  "shops32 = map (\<lambda>i. (shop_name i, [])) [0..<31] @ [(shop_name 31, [[(''A'', ''1'')]])]"

definition shops33 :: shopsData where
  "shops33 = (shop_name 0, [[(''A'', ''5'')]]) # map (\<lambda>i. (shop_name i, [])) [1..<32]
             @ [(shop_name 32, [[(''B'', ''7'')]])]"

text \<open>A catalog with a price that is no number and a negative price.\<close>

definition shops_bad_prices :: shopsData where
  "shops_bad_prices = [(''V1'', [[(''A'', ''abc'')], [(''B'', ''-5'')]])]"

text \<open>
  What \<^verbatim>\<open>Object.entries\<close> of a catalog object is: the shop names are distinct; and no
  item object is empty.
\<close>

definition well_formed :: "shopsData \<Rightarrow> bool" where
  "well_formed d =
     (distinct (map fst d) \<and> list_all (\<lambda>entry. list_all (\<lambda>itemObj. itemObj \<noteq> []) (snd entry)) d)"

section \<open>Invariants used in the proofs\<close>

text \<open>The sum of the cheapest listed prices of the items from position \<open>i\<close> on.\<close>

definition suffix_cost :: "(string \<rightharpoonup> int PriceOption list) \<Rightarrow> string list \<Rightarrow> nat \<Rightarrow> int" where
  "suffix_cost its ids i = sum_list (map (cheapest_price its) (drop i ids))"

text \<open>Brute force: once a cost is recorded, the recorded selection is not empty.\<close>

definition bf_inv :: "BF \<Rightarrow> bool" where
  "bf_inv g = (BF.bestCost g \<noteq> Infinity \<longrightarrow> bestSelection g \<noteq> [])"

text \<open>No option of a requested item belongs to a shop whose mask bit is the sign bit.\<close>

definition no_bit31 :: "(string \<rightharpoonup> int PriceOption list) \<Rightarrow> string list \<Rightarrow> bool" where
  "no_bit31 its ids =
     (\<forall>i \<in> set ids. case its i of None \<Rightarrow> True
                               | Some os \<Rightarrow> \<forall>opt \<in> set os. shopIndex opt mod 32 \<noteq> 31)"

text \<open>Memoized search: every memo entry has the right cost and a mask without the sign bit.\<close>

definition memo_ok ::
  "(string \<rightharpoonup> int PriceOption list) \<Rightarrow> string list \<Rightarrow> (nat \<times> 32 word \<rightharpoonup> DPState) \<Rightarrow> bool"
where
  "memo_ok its ids mm =
     (\<forall>j m r. mm (j, m) = Some r \<longrightarrow>
        cost r = Num (suffix_cost its ids j) \<and> \<not> bit (DPState.shops r) 31)"

text \<open>Memoized search: an entry for a position from which some item has no option is infinite.\<close>

definition memo_inf ::
  "(string \<rightharpoonup> int PriceOption list) \<Rightarrow> string list \<Rightarrow> (nat \<times> 32 word \<rightharpoonup> DPState) \<Rightarrow> bool"
where
  "memo_inf its ids mm =
     (\<forall>j m r. mm (j, m) = Some r \<longrightarrow> \<not> has_options its (drop j ids) \<longrightarrow> cost r = Infinity)"

definition loop_inv :: "DPLoop \<Rightarrow> bool" where
  "loop_inv l =
     ((bestOption l = None \<longleftrightarrow> DPLoop.bestCost l = Infinity) \<and>
      (\<forall>b. bestOption l = Some b \<longrightarrow> \<not> bit (newShopsBitmask b) 31))"

text \<open>
  Renaming the prices of an index: what \<open>build_index\<close> with a conversion \<open>f\<close> yields
  from the index built with the price strings kept as they are.
\<close>

definition map_price :: "('p \<Rightarrow> 'q) \<Rightarrow> 'p PriceOption \<Rightarrow> 'q PriceOption" where
  "map_price f opt =
     \<lparr>PriceOption.shop = PriceOption.shop opt, price = f (PriceOption.price opt),
      shopIndex = shopIndex opt\<rparr>"

definition map_options ::
  "('p \<Rightarrow> 'q) \<Rightarrow> (string \<rightharpoonup> 'p PriceOption list) \<Rightarrow> (string \<rightharpoonup> 'q PriceOption list)"
where
  "map_options f m = (\<lambda>i. map_option (map (map_price f)) (m i))"

definition map_index :: "('p \<Rightarrow> 'q) \<Rightarrow> 'p Index \<Rightarrow> 'q Index" where
  "map_index f ix =
     \<lparr>itemToShops = map_options f (itemToShops ix), shopList = shopList ix,
      shopNameToIndex = shopNameToIndex ix\<rparr>"


text \<open>
  Memoized search, without a condition on the masks: every memo entry has the right cost; the
  loop has a best option exactly when its best cost is finite.
\<close>

definition memo_costs ::
  "(string \<rightharpoonup> int PriceOption list) \<Rightarrow> string list \<Rightarrow> (nat \<times> 32 word \<rightharpoonup> DPState) \<Rightarrow> bool"
where
  "memo_costs its ids mm =
     (\<forall>j m r. mm (j, m) = Some r \<longrightarrow> cost r = Num (suffix_cost its ids j))"

definition loop_some :: "DPLoop \<Rightarrow> bool" where
  "loop_some l = (bestOption l = None \<longleftrightarrow> DPLoop.bestCost l = Infinity)"

text \<open>
  A memo whose keys are states with a mask without the sign bit, from which no shop of index
  31 modulo 32 is ahead.
\<close>

definition memo_clear ::
  "(string \<rightharpoonup> int PriceOption list) \<Rightarrow> string list \<Rightarrow> (nat \<times> 32 word \<rightharpoonup> 'a) \<Rightarrow> bool"
where
  "memo_clear its ids mm =
     (\<forall>j m r. mm (j, m) = Some r \<longrightarrow> \<not> bit m 31 \<and> no_bit31 its (drop j ids))"



section \<open>Bounds\<close>

lemma fold_add_sum:
  "fold (\<lambda>j acc. acc + g j) js (a::int) = a + sum_list (map g js)"
  by (induction js arbitrary: a) auto

lemma lower_step_eq:
  "(case its i of None \<Rightarrow> minCost
    | Some options \<Rightarrow> if length options = 0 then minCost
                      else minCost + min_list (map PriceOption.price options))
   = minCost + cheapest_price its i"
  by (auto simp: cheapest_price_def min_list_Min split: option.splits)

lemma getLowerBound_sum:
  "getLowerBound its ids i = sum_list (map (cheapest_price its) (drop i ids))"
proof -
  have "getLowerBound its ids i =
        fold (\<lambda>j acc. acc + cheapest_price its (ids ! j)) [i..<length ids] 0"
    unfolding getLowerBound_def lower_step_eq ..
  also have "\<dots> = sum_list (map (\<lambda>j. cheapest_price its (ids ! j)) [i..<length ids])"
    by (simp add: fold_add_sum)
  also have "map (\<lambda>j. cheapest_price its (ids ! j)) [i..<length ids]
             = map (cheapest_price its) (drop i ids)"
    by (simp add: drop_map[symmetric] map_nth map_upt_eqI drop_eq_nths[symmetric] list_eq_iff_nth_eq)
  finally show ?thesis .
qed

lemma cheapest_le:
  "its i = Some os \<Longrightarrow> opt \<in> set os \<Longrightarrow> cheapest_price its i \<le> PriceOption.price opt"
  by (auto simp: cheapest_price_def)

lemma combinations_Cons:
  "set (combinations its (i # ids)) =
   {opt # c | opt c. opt \<in> set (case its i of None \<Rightarrow> [] | Some os \<Rightarrow> os) \<and> c \<in> set (combinations its ids)}"
  by (auto simp: combinations_def option_lists_def)

lemma lower_bound_combination:
  "c \<in> set (combinations its ids) \<Longrightarrow> sum_list (map (cheapest_price its) ids) \<le> plan_cost c"
proof (induction ids arbitrary: c)
  case Nil
  then show ?case by (simp add: combinations_def option_lists_def plan_cost_def)
next
  case (Cons i ids)
  then obtain opt c' where c: "c = opt # c'"
    and opt: "opt \<in> set (case its i of None \<Rightarrow> [] | Some os \<Rightarrow> os)"
    and c': "c' \<in> set (combinations its ids)"
    by (auto simp: combinations_Cons)
  from opt obtain os where "its i = Some os" "opt \<in> set os"
    by (cases "its i") auto
  then have "cheapest_price its i \<le> PriceOption.price opt" by (rule cheapest_le)
  moreover have "sum_list (map (cheapest_price its) ids) \<le> plan_cost c'"
    using Cons.IH c' by blast
  ultimately show ?case by (simp add: c plan_cost_def)
qed


lemmas example_simps =
  index_of_def build_index_def Number_int_def Number_dec_def is_digit_def digits_value_def
  get_options_def Set_add_def Set_delete_def Set_of_def stateKey_def shop_bit_def popcount_def
  popcount_loop.simps getGreedyUpperBound_def greedy_step_def cheapest_option_def
  getLowerBound_def dpState_def primed_def Let_def
  backtrack.simps backtrack_for.simps dp.simps dp_for.simps dpOptimized.simps
  dpOptimized_for.simps reconstruct.simps reconstruct_for.simps

text \<open>
  C7. \<open>getLowerBound its ids fromIndex\<close> is the sum of the cheapest listed prices of the
  items from \<open>fromIndex\<close> to the end (an item without options adds nothing), and no
  assignment of these items to vendors offering them costs less.
\<close>

theorem getLowerBound_is_cheapest_sum_and_bound:
  "getLowerBound its ids fromIndex = sum_list (map (cheapest_price its) (drop fromIndex ids)) \<and>
   (\<forall>c \<in> set (combinations its (drop fromIndex ids)). getLowerBound its ids fromIndex \<le> plan_cost c)"
  by (simp add: getLowerBound_sum lower_bound_combination)

theorem getLowerBound_is_cheapest_sum_and_bound_witness:
  "getLowerBound (itemToShops (index_of shops1)) [''A'', ''B''] 1 = 5 \<and>
   [\<lparr>PriceOption.shop = ''V1'', price = 6, shopIndex = 0\<rparr>]
     \<in> set (combinations (itemToShops (index_of shops1)) (drop 1 [''A'', ''B''])) \<and>
   getLowerBound (itemToShops (index_of shops1)) [''A'', ''B''] 1
     \<le> plan_cost [\<lparr>PriceOption.shop = ''V1'', price = 6, shopIndex = 0\<rparr>]"
proof -
  let ?its = "itemToShops (index_of shops1)"
  let ?c = "[\<lparr>PriceOption.shop = ''V1'', price = (6::int), shopIndex = 0\<rparr>]"
  have mem: "?c \<in> set (combinations ?its (drop 1 [''A'', ''B'']))"
    by (simp add: example_simps shops1_def combinations_def option_lists_def)
  have its_B: "?its ''B'' = Some [\<lparr>PriceOption.shop = ''V1'', price = 6, shopIndex = 0\<rparr>,
                                 \<lparr>PriceOption.shop = ''V2'', price = 5, shopIndex = 1\<rparr>]"
    by (simp add: example_simps shops1_def)
  from getLowerBound_is_cheapest_sum_and_bound [of ?its "[''A'', ''B'']" 1]
  have eq: "getLowerBound ?its [''A'', ''B''] 1 = sum_list (map (cheapest_price ?its) (drop 1 [''A'', ''B'']))"
    and le: "\<forall>c \<in> set (combinations ?its (drop 1 [''A'', ''B''])). getLowerBound ?its [''A'', ''B''] 1 \<le> plan_cost c"
    by blast+
  have "getLowerBound ?its [''A'', ''B''] 1 = 5"
    unfolding eq by (simp add: cheapest_price_def its_B)
  moreover have "getLowerBound ?its [''A'', ''B''] 1 \<le> plan_cost ?c"
    using le mem by blast
  ultimately show ?thesis using mem by blast
qed

section \<open>The branch-and-bound search returns from its first call\<close>

lemma Min_insert_min:
  "finite S \<Longrightarrow> Min (insert (min x y) S) = Min (insert (x::int) (insert y S))"
  by (cases "S = {}") (simp_all add: min.assoc)

lemma cheapest_option_price:
  "PriceOption.price (cheapest_option f os) = Min (insert (PriceOption.price f) (PriceOption.price ` set os))"
  unfolding cheapest_option_def
proof (induction os arbitrary: f)
  case Nil
  then show ?case by simp
next
  case (Cons a os)
  let ?g = "if PriceOption.price a < PriceOption.price f then a else f"
  have g: "PriceOption.price ?g = min (PriceOption.price f) (PriceOption.price a)"
    by (simp add: min_def)
  show ?case
    using Cons.IH [of ?g] unfolding g by (simp add: Min_insert_min)
qed

lemma greedy_step_fst:
  "fst (greedy_step its i (a, su)) = a + cheapest_price its i"
  by (auto simp: greedy_step_def cheapest_price_def cheapest_option_price Let_def
           split: option.splits list.splits)

lemma greedy_fold_fst:
  "fst (fold (greedy_step its) ids (a, su)) = a + sum_list (map (cheapest_price its) ids)"
proof (induction ids arbitrary: a su)
  case Nil
  then show ?case by simp
next
  case (Cons i ids)
  obtain a' su' where st: "greedy_step its i (a, su) = (a', su')" by (cases "greedy_step its i (a, su)")
  then have "a' = a + cheapest_price its i" using greedy_step_fst [of its i a su] by simp
  then show ?case using Cons.IH [of a' su'] by (simp add: st)
qed

lemma greedy_cost:
  "fst (getGreedyUpperBound its ids) = sum_list (map (cheapest_price its) ids)"
  using greedy_fold_fst [of its ids 0 "[]"]
  by (auto simp: getGreedyUpperBound_def split: prod.splits)

lemma primed_fields:
  "bestCost (primed its ids) = Num (sum_list (map (cheapest_price its) ids))"
  "memo (primed its ids) = Map.empty"
  "memoHits (primed its ids) = 0"
  using greedy_cost [of its ids]
  by (auto simp: primed_def dpState_def split: prod.splits)

text \<open>The first call of the search returns at once: the primed ceiling is the lower bound.\<close>

lemma dpOptimized_root:
  "\<exists>s. dpOptimized its ids 0 0 0 (primed its ids) = Some (Infinity, s) \<and>
       bestCost s = bestCost (primed its ids) \<and> memoHits s = 0 \<and>
       (\<forall>k v. memo s k = Some v \<longrightarrow> k = stateKey 0 0 \<and> v = Infinity)"
proof -
  have lb: "getLowerBound its ids 0 = sum_list (map (cheapest_price its) ids)"
    by (simp add: getLowerBound_sum)
  show ?thesis
    by (subst dpOptimized.simps)
       (auto simp: primed_fields lb Let_def split: option.splits)
qed

lemma reconstruct_total:
  "has_options its ids \<Longrightarrow> index \<le> length ids \<Longrightarrow>
     \<exists>st'. reconstruct its ids best index m c st = Inr st'"
  "has_options its ids \<Longrightarrow> index < length ids \<Longrightarrow>
     \<exists>st'. reconstruct_for its ids best index m c opts st = Inr st'"
proof (induction its ids best index m c st and its ids best index m c opts st
       rule: reconstruct_reconstruct_for.induct)
  case (1 its ids best index m c st)
  show ?case
  proof (cases "index = length ids")
    case True
    then show ?thesis by (simp add: reconstruct.simps)
  next
    case False
    with 1 have lt: "index < length ids" by simp
    then have "ids ! index \<in> set ids" by simp
    with 1(2) obtain os where os: "its (ids ! index) = Some os"
      by (auto simp: has_options_def split: option.splits)
    then have g: "get_options its ids index = Some os"
      using lt by (simp add: get_options_def)
    from 1(1) [OF False g] 1(2) lt show ?thesis
      using False g by (simp add: reconstruct.simps)
  qed
next
  case (2 its ids best index m c st)
  then show ?case by (simp add: reconstruct_for.simps)
next
  case (3 its ids best index m c option rest st)
  then show ?case by (auto simp: Let_def reconstruct_for.simps)
qed

lemma has_options_Cons:
  "has_options its (i # ids) \<longleftrightarrow> (\<exists>os. its i = Some os \<and> os \<noteq> []) \<and> has_options its ids"
  by (auto simp: has_options_def split: option.splits)

lemma cheapest_attained:
  assumes "its i = Some os" "os \<noteq> []"
  obtains opt where "opt \<in> set os" "PriceOption.price opt = cheapest_price its i"
proof -
  have "Min (PriceOption.price ` set os) \<in> PriceOption.price ` set os"
    using assms(2) by (intro Min_in) auto
  then obtain opt where "opt \<in> set os" "PriceOption.price opt = Min (PriceOption.price ` set os)"
    by auto
  then show ?thesis using that assms by (simp add: cheapest_price_def)
qed

lemma cheapest_combination:
  "has_options its ids \<Longrightarrow>
   \<exists>c \<in> set (combinations its ids). plan_cost c = sum_list (map (cheapest_price its) ids)"
proof (induction ids)
  case Nil
  then show ?case by (simp add: combinations_def option_lists_def plan_cost_def)
next
  case (Cons i ids)
  then obtain os where os: "its i = Some os" "os \<noteq> []" and rest: "has_options its ids"
    by (auto simp: has_options_Cons)
  from os obtain opt where opt: "opt \<in> set os" "PriceOption.price opt = cheapest_price its i"
    by (rule cheapest_attained)
  from Cons.IH [OF rest] obtain c where c: "c \<in> set (combinations its ids)"
    "plan_cost c = sum_list (map (cheapest_price its) ids)" by blast
  have "opt # c \<in> set (combinations its (i # ids))"
    using opt(1) c(1) os(1) by (auto simp: combinations_Cons)
  moreover have "plan_cost (opt # c) = sum_list (map (cheapest_price its) (i # ids))"
    using opt(2) c(2) by (simp add: plan_cost_def)
  ultimately show ?case by blast
qed

lemma oracle_cost_cheapest:
  "has_options its ids \<Longrightarrow> oracle_cost its ids = sum_list (map (cheapest_price its) ids)"
  unfolding oracle_cost_def
proof (rule Min_eqI)
  show "finite (plan_cost ` set (combinations its ids))" by simp
next
  fix y assume "y \<in> plan_cost ` set (combinations its ids)"
  then show "sum_list (map (cheapest_price its) ids) \<le> y"
    by (auto simp: lower_bound_combination)
next
  assume "has_options its ids"
  from cheapest_combination [OF this]
  show "sum_list (map (cheapest_price its) ids) \<in> plan_cost ` set (combinations its ids)"
    by force
qed

lemma bestPriceDPOptimized_cost:
  assumes "has_options its ids"
  shows "\<exists>r. bestPriceDPOptimized its ids = Some (Inr r) \<and>
             totalCost r = Num (sum_list (map (cheapest_price its) ids))"
proof -
  obtain s where s: "dpOptimized its ids 0 0 0 (primed its ids) = Some (Infinity, s)"
    and b: "bestCost s = Num (sum_list (map (cheapest_price its) ids))"
    using dpOptimized_root [of its ids] by (auto simp: primed_fields)
  obtain st where st: "reconstruct its ids (bestCost s) 0 0 0 ([], 0) = Inr st"
    using reconstruct_total(1) [OF assms, of 0] by blast
  obtain g n where g: "getGreedyUpperBound its ids = (g, n)" by (cases "getGreedyUpperBound its ids")
  have p: "dpState\<lparr>bestCost := Num g, bestShopCount := Num (int n)\<rparr> = primed its ids"
    by (simp add: primed_def g)
  show ?thesis
    unfolding bestPriceDPOptimized_def g prod.case p s option.case
    using b st by (cases st) simp
qed

text \<open>
  C10. In the branch-and-bound solver, when every requested item has an option, the emitted
  \<open>totalCost\<close> is the cost of the greedy bound, the sum of the cheapest listed prices: the
  primed ceiling is never replaced.
\<close>

theorem optimized_totalCost_is_greedy_bound:
  assumes "has_options its ids"
  shows "\<exists>r. bestPriceDPOptimized its ids = Some (Inr r) \<and>
             totalCost r = Num (fst (getGreedyUpperBound its ids)) \<and>
             fst (getGreedyUpperBound its ids) = sum_list (map (cheapest_price its) ids)"
  using bestPriceDPOptimized_cost [OF assms] by (simp add: greedy_cost)

theorem optimized_totalCost_is_greedy_bound_witness:
  "has_options (itemToShops (index_of shops1)) [''A'', ''B''] \<and>
   (\<exists>r. bestPriceDPOptimized (itemToShops (index_of shops1)) [''A'', ''B''] = Some (Inr r) \<and>
        totalCost r = Num 15) \<and>
   fst (getGreedyUpperBound (itemToShops (index_of shops1)) [''A'', ''B'']) = 15"
proof -
  let ?its = "itemToShops (index_of shops1)"
  have h: "has_options ?its [''A'', ''B'']"
    by (simp add: has_options_def example_simps shops1_def)
  have g: "fst (getGreedyUpperBound ?its [''A'', ''B'']) = 15"
    by (simp add: example_simps shops1_def)
  from optimized_totalCost_is_greedy_bound [OF h] g h show ?thesis by auto
qed

section \<open>Brute force computes the least cost\<close>

lemma suffix_cost_end: "suffix_cost its ids (length ids) = 0"
  by (simp add: suffix_cost_def)

lemma suffix_cost_step:
  "i < length ids \<Longrightarrow> suffix_cost its ids i = cheapest_price its (ids ! i) + suffix_cost its ids (Suc i)"
  by (simp add: suffix_cost_def Cons_nth_drop_Suc [symmetric])

lemma num_min_fold:
  "fold (\<lambda>opt b. num_min b (Num (k + PriceOption.price opt))) os b =
     (if os = [] then b else num_min b (Num (k + Min (PriceOption.price ` set os))))"
proof (induction os arbitrary: b)
  case Nil
  then show ?case by simp
next
  case (Cons a os)
  show ?case
  proof (cases "os = []")
    case True
    then show ?thesis by simp
  next
    case False
    then have "Min (PriceOption.price ` set (a # os)) = min (PriceOption.price a) (Min (PriceOption.price ` set os))"
      by simp
    then show ?thesis
      using False by (cases b) (simp_all add: Cons.IH min.assoc min_add_distrib_right)
  qed
qed

lemma leaf_update_cost:
  "BF.bestCost (if num_lt (Num c) (BF.bestCost g) \<or> (Num c = BF.bestCost g \<and> q)
                then \<lparr>BF.bestCost = Num c, bestShopCount = x, bestSelection = y\<rparr> else g)
   = num_min (BF.bestCost g) (Num c)"
  by (cases "BF.bestCost g") (auto simp: min_def)

lemma get_options_has:
  "has_options its ids \<Longrightarrow> index < length ids \<Longrightarrow>
   \<exists>os. get_options its ids index = Some os \<and> os \<noteq> [] \<and> its (ids ! index) = Some os"
  by (auto simp: has_options_def get_options_def split: option.splits dest!: bspec [where x = "ids ! index"])

lemma backtrack_cost:
  "has_options its ids \<Longrightarrow> index \<le> length ids \<Longrightarrow> (0 < index \<longrightarrow> cs \<noteq> []) \<Longrightarrow> ids \<noteq> [] \<Longrightarrow>
   bf_inv g \<Longrightarrow>
   (case backtrack its ids index cs c su g of
      (cs', su', g') \<Rightarrow>
        BF.bestCost g' = num_min (BF.bestCost g) (Num (c + suffix_cost its ids index)) \<and> bf_inv g')"
  "has_options its ids \<Longrightarrow> index < length ids \<Longrightarrow> ids \<noteq> [] \<Longrightarrow> bf_inv g \<Longrightarrow>
   (case backtrack_for its ids index opts cs c su g of
      (cs', su', g') \<Rightarrow>
        BF.bestCost g' =
          fold (\<lambda>opt b. num_min b (Num ((c + suffix_cost its ids (Suc index)) + PriceOption.price opt)))
            opts (BF.bestCost g) \<and> bf_inv g')"
proof (induction its ids index cs c su g and its ids index opts cs c su g
       rule: backtrack_backtrack_for.induct)
  case (1 its ids index cs c su g)
  show ?case
  proof (cases "index = length ids")
    case True
    with 1 have "cs \<noteq> []" by auto
    then show ?thesis
      using True 1(6)
      by (subst backtrack.simps)
         (cases "BF.bestCost g"; simp add: suffix_cost_end leaf_update_cost Let_def bf_inv_def)
  next
    case False
    with 1 have lt: "index < length ids" by simp
    from get_options_has [OF 1(2) lt] obtain os where
      g: "get_options its ids index = Some os" and ne: "os \<noteq> []" and
      its: "its (ids ! index) = Some os" by blast
    have cp: "cheapest_price its (ids ! index) = Min (PriceOption.price ` set os)"
      using its ne by (simp add: cheapest_price_def)
    obtain cs' su' g' where r: "backtrack_for its ids index os cs c su g = (cs', su', g')"
      by (cases "backtrack_for its ids index os cs c su g")
    from 1(1) [OF False g 1(2) lt 1(5) 1(6)] r
    have "BF.bestCost g' =
            fold (\<lambda>opt b. num_min b (Num ((c + suffix_cost its ids (Suc index)) + PriceOption.price opt)))
              os (BF.bestCost g)"
      and inv: "bf_inv g'" by auto
    then have "BF.bestCost g' =
        num_min (BF.bestCost g) (Num ((c + suffix_cost its ids (Suc index)) + Min (PriceOption.price ` set os)))"
      using ne by (simp only: num_min_fold if_False)
    also have "(c + suffix_cost its ids (Suc index)) + Min (PriceOption.price ` set os)
               = c + suffix_cost its ids index"
      by (simp add: suffix_cost_step [OF lt] cp)
    finally show ?thesis
      using False g ne r inv by (subst backtrack.simps) simp
  qed
next
  case (2 its ids index cs c su g)
  then show ?case by (simp add: backtrack_for.simps)
next
  case (3 its ids index opt rest cs c su g)
  let ?call = "backtrack its ids (index + 1)
             (cs @ [\<lparr>Selection.itemId = ids ! index, shop = PriceOption.shop opt, price = PriceOption.price opt\<rparr>])
             (c + PriceOption.price opt) (Set_add (PriceOption.shop opt) su) g"
  obtain cs1 su1 g1 where call: "?call = (cs1, su1, g1)" by (cases ?call)
  from 3(1) [OF 3(3)] 3(4) 3(5) 3(6) call
  have g1: "BF.bestCost g1 = num_min (BF.bestCost g) (Num (c + PriceOption.price opt + suffix_cost its ids (Suc index)))"
    and inv1: "bf_inv g1" by auto
  from 3(2) [OF call [symmetric] refl 3(3) 3(4) 3(5) inv1]
  show ?case
    using call g1 by (subst backtrack_for.simps) (simp add: add.assoc add.commute add.left_commute)
qed

section \<open>When \<open>popcount\<close> returns\<close>

lemma sint_nonneg_iff: "0 \<le> sint (n :: 32 word) \<longleftrightarrow> \<not> bit n 31"
  using bit_last_iff [of n] by auto

lemma sint_eq_0_iff: "sint (n :: 32 word) = 0 \<longleftrightarrow> n = 0"
  by (simp add: signed_eq_0_iff)

lemma popcount_loop_returns:
  "0 \<le> sint n \<Longrightarrow> \<exists>k. popcount_loop n c = Some k"
proof (induction "nat (sint n)" arbitrary: n c rule: less_induct)
  case less
  show ?case
  proof (cases "n = 0")
    case True
    then show ?thesis by (simp add: popcount_loop.simps)
  next
    case False
    then have pos: "0 < sint n" using less.prems by (simp add: sint_eq_0_iff order_less_le)
    have s: "sint (signed_drop_bit 1 n) = sint n div 2"
      by (simp add: sint_signed_drop_bit_eq drop_bit_eq_div)
    have "\<exists>k. popcount_loop (signed_drop_bit 1 n) (c + unat (n AND 1)) = Some k"
      by (rule less.hyps) (use pos s in auto)
    then show ?thesis using False by (subst popcount_loop.simps) simp
  qed
qed

lemma popcount_returns: "\<not> bit n 31 \<Longrightarrow> \<exists>k. popcount n = Some k"
  unfolding popcount_def by (rule popcount_loop_returns) (simp add: sint_nonneg_iff)

lemma popcount_loop_Some_nonneg:
  "popcount_loop n c = Some k \<Longrightarrow> 0 \<le> sint n"
proof (erule popcount_loop.raw_induct [where P = "\<lambda>n c k. 0 \<le> sint n", rotated])
  fix f :: "32 word \<Rightarrow> nat \<Rightarrow> nat option" and n c k
  assume 1: "\<And>n c k. f n c = Some k \<Longrightarrow> 0 \<le> sint n"
    "(if n = 0 then Some c else f (signed_drop_bit 1 n) (c + unat (n AND 1))) = Some k"
  show "0 \<le> sint n"
  proof (cases "n = 0")
    case True
    then show ?thesis by simp
  next
    case False
    with 1(2) have "f (signed_drop_bit 1 n) (c + unat (n AND 1)) = Some k" by simp
    then have "0 \<le> sint (signed_drop_bit 1 n)" by (rule 1(1))
    then show ?thesis by (simp add: sint_signed_drop_bit_eq drop_bit_eq_div)
  qed
qed

lemma popcount_diverges: "bit n 31 \<Longrightarrow> popcount n = None"
  unfolding popcount_def
  using popcount_loop_Some_nonneg [of n 0] by (cases "popcount_loop n 0") (auto simp: sint_nonneg_iff)

lemma bit31_shop_bit: "bit (shop_bit k) 31 \<longleftrightarrow> k mod 32 = 31"
  by (auto simp: shop_bit_def bit_push_bit_iff bit_1_iff bit_exp_iff)

lemma bit31_or: "bit (m OR shop_bit k) 31 \<longleftrightarrow> bit m 31 \<or> k mod 32 = 31"
  by (simp add: bit_or_iff bit31_shop_bit)

section \<open>The memoized search computes the least cost\<close>

lemma loop_update_cost:
  "DPLoop.bestCost (if num_lt (Num c) (DPLoop.bestCost l) \<or> (Num c = DPLoop.bestCost l \<and> q)
                then \<lparr>bestOption = x, bestCost = Num c, bestShopCount = y\<rparr> else l)
   = num_min (DPLoop.bestCost l) (Num c)"
  by (cases "DPLoop.bestCost l") (auto simp: min_def)

lemma loop_update_inv:
  "loop_inv l \<Longrightarrow> \<not> bit (newShopsBitmask b) 31 \<Longrightarrow>
   loop_inv (if num_lt (Num c) (DPLoop.bestCost l) \<or> (Num c = DPLoop.bestCost l \<and> q)
             then \<lparr>bestOption = Some b, bestCost = Num c, bestShopCount = y\<rparr> else l)"
  by (auto simp: loop_inv_def)

lemma memo_ok_upd:
  "memo_ok its ids mm \<Longrightarrow> cost r = Num (suffix_cost its ids j) \<Longrightarrow> \<not> bit (DPState.shops r) 31 \<Longrightarrow>
   memo_ok its ids (mm((j, m) \<mapsto> r))"
  by (auto simp: memo_ok_def)

lemma no_bit31_options:
  "no_bit31 its ids \<Longrightarrow> i < length ids \<Longrightarrow> its (ids ! i) = Some os \<Longrightarrow>
   \<forall>opt \<in> set os. shopIndex opt mod 32 \<noteq> 31"
  by (auto simp: no_bit31_def dest!: bspec [where x = "ids ! i"])

lemma dp_cost:
  "has_options its ids \<Longrightarrow> no_bit31 its ids \<Longrightarrow> i \<le> length ids \<Longrightarrow> \<not> bit msk 31 \<Longrightarrow>
   memo_ok its ids mm \<Longrightarrow>
   \<exists>r memo'. dp its ids i msk mm = Some (r, memo') \<and> cost r = Num (suffix_cost its ids i) \<and>
             \<not> bit (DPState.shops r) 31 \<and> memo_ok its ids memo'"
  "has_options its ids \<Longrightarrow> no_bit31 its ids \<Longrightarrow> i < length ids \<Longrightarrow> \<not> bit msk 31 \<Longrightarrow>
   memo_ok its ids mm \<Longrightarrow> \<forall>opt \<in> set opts. shopIndex opt mod 32 \<noteq> 31 \<Longrightarrow> loop_inv l \<Longrightarrow>
   \<exists>l' memo'. dp_for its ids i msk opts l mm = Some (l', memo') \<and>
      DPLoop.bestCost l' =
        fold (\<lambda>opt b. num_min b (Num (suffix_cost its ids (Suc i) + PriceOption.price opt)))
          opts (DPLoop.bestCost l) \<and>
      loop_inv l' \<and> memo_ok its ids memo'"
proof (induction its ids i msk mm and its ids i msk opts l mm rule: dp_dp_for.induct)
  case (1 its ids i msk mm)
  show ?case
  proof (cases "i = length ids")
    case True
    then show ?thesis
      using 1(5,6) by (subst dp.simps) (simp add: suffix_cost_end)
  next
    case False
    with 1 have lt: "i < length ids" by simp
    show ?thesis
    proof (cases "mm (stateKey i msk)")
      case (Some r)
      then show ?thesis
        using False 1(6) by (subst dp.simps) (auto simp: memo_ok_def stateKey_def)
    next
      case None
      from get_options_has [OF 1(2) lt] obtain os where
        g: "get_options its ids i = Some os" and ne: "os \<noteq> []" and
        its: "its (ids ! i) = Some os" by blast
      have cp: "cheapest_price its (ids ! i) = Min (PriceOption.price ` set os)"
        using its ne by (simp add: cheapest_price_def)
      let ?l0 = "\<lparr>bestOption = None, bestCost = Infinity, bestShopCount = Infinity\<rparr>"
      have l0: "loop_inv ?l0" by (simp add: loop_inv_def)
      from ne have ne': "length os \<noteq> 0" by simp
      from 1(1) [OF False refl None g ne' 1(2) 1(3) lt 1(5) 1(6) no_bit31_options [OF 1(3) lt its] l0]
      obtain l' memo' where
        r: "dp_for its ids i msk os ?l0 mm = Some (l', memo')" and
        c: "DPLoop.bestCost l' =
              fold (\<lambda>opt b. num_min b (Num (suffix_cost its ids (Suc i) + PriceOption.price opt)))
                os Infinity" and
        inv: "loop_inv l'" and ok: "memo_ok its ids memo'"
        by auto
      from c have "DPLoop.bestCost l' = Num (suffix_cost its ids (Suc i) + Min (PriceOption.price ` set os))"
        using ne by (simp only: num_min_fold if_False num_min.simps)
      also have "suffix_cost its ids (Suc i) + Min (PriceOption.price ` set os) = suffix_cost its ids i"
        by (simp add: suffix_cost_step [OF lt] cp)
      finally have c': "DPLoop.bestCost l' = Num (suffix_cost its ids i)" .
      with inv obtain b where b: "bestOption l' = Some b" and nb: "\<not> bit (newShopsBitmask b) 31"
        by (auto simp: loop_inv_def)
      show ?thesis
        using False None g ne r b nb c' ok
        by (subst dp.simps) (simp add: Let_def stateKey_def memo_ok_upd)
    qed
  qed
next
  case (2 its ids i msk l mm)
  then show ?case by (simp add: dp_for.simps)
next
  case (3 its ids i msk option rest l mm)
  let ?m = "msk OR shop_bit (shopIndex option)"
  have nm: "\<not> bit ?m 31" using 3(7) 3(9) by (simp add: bit31_or)
  from 3(1) [OF refl 3(4) 3(5) _ nm 3(8)] 3(6)
  obtain fs memo1 where
    call: "dp its ids (i + 1) ?m mm = Some (fs, memo1)" and
    cost: "cost fs = Num (suffix_cost its ids (Suc i))" and
    ok1: "memo_ok its ids memo1" by auto
  from popcount_returns [OF nm] obtain k where pk: "popcount ?m = Some k" by blast
  let ?c = "PriceOption.price option + suffix_cost its ids (Suc i)"
  let ?b = "\<lparr>BestOption.itemId = ids ! i, shop = PriceOption.shop option,
              price = PriceOption.price option, futureState = fs, newShopsBitmask = ?m\<rparr>"
  let ?l1 = "if num_lt (Num ?c) (DPLoop.bestCost l) \<or>
                (Num ?c = DPLoop.bestCost l \<and> num_lt (Num (int k)) (DPLoop.bestShopCount l))
             then \<lparr>bestOption = Some ?b, bestCost = Num ?c, bestShopCount = Num (int k)\<rparr>
             else l"
  have inv1: "loop_inv ?l1" using 3(10) nm by (intro loop_update_inv) simp_all
  have c1: "DPLoop.bestCost ?l1 = num_min (DPLoop.bestCost l) (Num ?c)"
    by (rule loop_update_cost)
  from 3(9) have rest: "\<forall>opt \<in> set rest. shopIndex opt mod 32 \<noteq> 31" by simp
  from 3(2) [OF refl call refl cost refl pk 3(4) 3(5) 3(6) 3(7) ok1 rest inv1]
  obtain l' memo' where
    r: "dp_for its ids i msk rest ?l1 memo1 = Some (l', memo')" and
    c: "DPLoop.bestCost l' =
          fold (\<lambda>opt b. num_min b (Num (suffix_cost its ids (Suc i) + PriceOption.price opt)))
            rest (DPLoop.bestCost ?l1)" and
    inv: "loop_inv l'" and ok: "memo_ok its ids memo'"
    by blast
  show ?case
    using call cost pk r c inv ok
    by (subst dp_for.simps) (simp add: Let_def c1 add.commute)
qed

section \<open>Least cost in the three programs\<close>

lemma bestPrice_cost:
  assumes "has_options its ids" "ids \<noteq> []"
  shows "\<exists>r. bestPrice its ids = Inr r \<and> totalCost r = Num (suffix_cost its ids 0)"
proof -
  let ?g0 = "\<lparr>BF.bestCost = Infinity, bestShopCount = Infinity, bestSelection = []\<rparr>"
  obtain cs su g where r: "backtrack its ids 0 [] 0 [] ?g0 = (cs, su, g)"
    by (cases "backtrack its ids 0 [] 0 [] ?g0")
  have "bf_inv ?g0" by (simp add: bf_inv_def)
  from backtrack_cost(1) [OF assms(1) _ _ assms(2) this, of 0 "[]" 0 "[]"] r
  have "BF.bestCost g = Num (suffix_cost its ids 0)" "bf_inv g" by auto
  then show ?thesis
    by (simp add: bestPrice_def r bf_inv_def)
qed

lemma bestPriceDP_cost:
  assumes "has_options (itemToShops ix) ids" "no_bit31 (itemToShops ix) ids"
  shows "\<exists>r. bestPriceDP ix ids = Some (Inr r) \<and> totalCost r = Num (suffix_cost (itemToShops ix) ids 0)"
proof -
  have "memo_ok (itemToShops ix) ids Map.empty" by (simp add: memo_ok_def)
  from dp_cost(1) [OF assms _ _ this, of 0 0]
  obtain r mm where r: "dp (itemToShops ix) ids 0 0 Map.empty = Some (r, mm)"
    and c: "cost r = Num (suffix_cost (itemToShops ix) ids 0)"
    and b: "\<not> bit (DPState.shops r) 31" by auto
  from popcount_returns [OF b] obtain k where "popcount (DPState.shops r) = Some k" by blast
  then show ?thesis
    by (simp add: bestPriceDP_def r c)
qed

lemma suffix_cost_0: "suffix_cost its ids 0 = sum_list (map (cheapest_price its) ids)"
  by (simp add: suffix_cost_def)

text \<open>
  C1, as amended. When every requested item has an option, the brute-force program and the
  branch-and-bound program report the least cost over all combinations, and so does the
  memoized program provided no option of a requested item belongs to a shop whose index is
  31 modulo 32 (so for every catalog of at most 31 shops).
\<close>

theorem solvers_report_least_cost:
  assumes "ids \<noteq> []" and "has_options (itemToShops ix) ids"
  shows "(\<exists>r. bestPrice (itemToShops ix) ids = Inr r \<and>
              totalCost r = Num (oracle_cost (itemToShops ix) ids)) \<and>
         (\<exists>r. bestPriceDPOptimized (itemToShops ix) ids = Some (Inr r) \<and>
              totalCost r = Num (oracle_cost (itemToShops ix) ids)) \<and>
         (no_bit31 (itemToShops ix) ids \<longrightarrow>
            (\<exists>r. bestPriceDP ix ids = Some (Inr r) \<and>
                 totalCost r = Num (oracle_cost (itemToShops ix) ids)))"
  using bestPrice_cost [OF assms(2) assms(1)] bestPriceDPOptimized_cost [OF assms(2)]
    bestPriceDP_cost [OF assms(2)]
  by (simp add: oracle_cost_cheapest [OF assms(2)] suffix_cost_0)

lemma shops1_index:
  "index_of shops1 =
     \<lparr>itemToShops =
        [''A'' \<mapsto> [\<lparr>PriceOption.shop = ''V1'', price = 10, shopIndex = 0\<rparr>],
         ''B'' \<mapsto> [\<lparr>PriceOption.shop = ''V1'', price = 6, shopIndex = 0\<rparr>,
                    \<lparr>PriceOption.shop = ''V2'', price = 5, shopIndex = 1\<rparr>]],
      shopList = [''V1'', ''V2''],
      shopNameToIndex = [''V1'' \<mapsto> 0, ''V2'' \<mapsto> 1]\<rparr>"
  by (simp add: example_simps shops1_def)

theorem solvers_report_least_cost_witness:
  "[''A'', ''B''] \<noteq> [] \<and> has_options (itemToShops (index_of shops1)) [''A'', ''B''] \<and>
   no_bit31 (itemToShops (index_of shops1)) [''A'', ''B''] \<and>
   oracle_cost (itemToShops (index_of shops1)) [''A'', ''B''] = 15 \<and>
   (\<exists>r. bestPrice (itemToShops (index_of shops1)) [''A'', ''B''] = Inr r \<and> totalCost r = Num 15) \<and>
   (\<exists>r. bestPriceDPOptimized (itemToShops (index_of shops1)) [''A'', ''B''] = Some (Inr r) \<and>
        totalCost r = Num 15) \<and>
   (\<exists>r. bestPriceDP (index_of shops1) [''A'', ''B''] = Some (Inr r) \<and> totalCost r = Num 15)"
proof -
  let ?ix = "index_of shops1"
  have ne: "[''A'', ''B''] \<noteq> []" by simp
  have h: "has_options (itemToShops ?ix) [''A'', ''B'']"
    by (simp add: has_options_def shops1_index)
  have n: "no_bit31 (itemToShops ?ix) [''A'', ''B'']"
    by (simp add: no_bit31_def shops1_index)
  have o: "oracle_cost (itemToShops ?ix) [''A'', ''B''] = 15"
    by (simp add: oracle_cost_def combinations_def option_lists_def plan_cost_def shops1_index)
  from solvers_report_least_cost [OF ne h] n h show ?thesis
    unfolding o by simp
qed

section \<open>The index construction checks nothing\<close>

lemma map_options_upd:
  "map_options f (m(i \<mapsto> os)) = (map_options f m)(i \<mapsto> map (map_price f) os)"
  by (auto simp: map_options_def)

lemma map_options_None: "map_options f m i = None \<longleftrightarrow> m i = None"
  by (simp add: map_options_def)

lemma map_options_Some: "m i = Some os \<Longrightarrow> map_options f m i = Some (map (map_price f) os)"
  by (simp add: map_options_def)

lemma add_items_step:
  "add_items f shopName k (((ident, priceStr) # others) # items) m =
     add_items f shopName k items
       (m(ident \<mapsto> (case m ident of None \<Rightarrow> [] | Some os \<Rightarrow> os) @
                    [\<lparr>PriceOption.shop = shopName, price = f priceStr, shopIndex = k\<rparr>]))"
  by (cases "m ident") (simp_all add: Let_def)

lemma add_items_map:
  "add_items f shopName k items (map_options f m) =
     map_sum (\<lambda>e. e) (map_options f) (add_items (\<lambda>str. str) shopName k items m)"
proof (induction items arbitrary: m)
  case Nil
  then show ?case by simp
next
  case (Cons itemObj items)
  show ?case
  proof (cases itemObj)
    case Nil
    then show ?thesis by simp
  next
    case (Cons entry others)
    obtain ident priceStr where e: "entry = (ident, priceStr)" by (cases entry)
    have eq: "(map_options f m)
                (ident \<mapsto> (case map_options f m ident of None \<Rightarrow> [] | Some os \<Rightarrow> os) @
                   [\<lparr>PriceOption.shop = shopName, price = f priceStr, shopIndex = k\<rparr>])
            = map_options f
                (m(ident \<mapsto> (case m ident of None \<Rightarrow> [] | Some os \<Rightarrow> os) @
                   [\<lparr>PriceOption.shop = shopName, price = priceStr, shopIndex = k\<rparr>]))"
      by (cases "m ident") (auto simp: map_options_def map_price_def fun_eq_iff)
    show ?thesis
      by (simp only: Cons e add_items_step eq Cons.IH)
  qed
qed

lemma map_index_simps:
  "itemToShops (map_index f ix) = map_options f (itemToShops ix)"
  "shopList (map_index f ix) = shopList ix"
  "shopNameToIndex (map_index f ix) = shopNameToIndex ix"
  by (simp_all add: map_index_def)

lemma add_shops_step:
  "add_shops f ((shopName, items) # rest) ix =
     (case add_items f shopName
             (case shopNameToIndex ix shopName of None \<Rightarrow> length (shopList ix) | Some k \<Rightarrow> k)
             items (itemToShops ix) of
        Inl e \<Rightarrow> Inl e
      | Inr m \<Rightarrow>
          add_shops f rest
            ((case shopNameToIndex ix shopName of
                None \<Rightarrow> ix\<lparr>shopNameToIndex := (shopNameToIndex ix)(shopName \<mapsto> length (shopList ix)),
                           shopList := shopList ix @ [shopName]\<rparr>
              | Some k \<Rightarrow> ix)\<lparr>itemToShops := m\<rparr>))"
  by (cases "shopNameToIndex ix shopName") (simp_all add: Let_def split: sum.splits)

lemma add_shops_map:
  "add_shops f d (map_index f ix) = map_sum (\<lambda>e. e) (map_index f) (add_shops (\<lambda>str. str) d ix)"
proof (induction d arbitrary: ix)
  case Nil
  then show ?case by simp
next
  case (Cons entry rest)
  obtain shopName items where e: "entry = (shopName, items)" by (cases entry)
  let ?k = "case shopNameToIndex ix shopName of None \<Rightarrow> length (shopList ix) | Some k \<Rightarrow> k"
  let ?ix1 = "case shopNameToIndex ix shopName of
                None \<Rightarrow> ix\<lparr>shopNameToIndex := (shopNameToIndex ix)(shopName \<mapsto> length (shopList ix)),
                           shopList := shopList ix @ [shopName]\<rparr>
              | Some k \<Rightarrow> ix"
  have upd: "\<And>m. (case shopNameToIndex ix shopName of
                None \<Rightarrow> (map_index f ix)\<lparr>shopNameToIndex := (shopNameToIndex ix)(shopName \<mapsto> length (shopList ix)),
                           shopList := shopList ix @ [shopName]\<rparr>
              | Some k \<Rightarrow> map_index f ix)\<lparr>itemToShops := map_options f m\<rparr>
             = map_index f (?ix1\<lparr>itemToShops := m\<rparr>)"
    by (cases "shopNameToIndex ix shopName") (simp_all add: map_index_def)
  show ?case
  proof (cases "add_items (\<lambda>str. str) shopName ?k items (itemToShops ix)")
    case (Inl err)
    then show ?thesis
      by (simp only: e add_shops_step map_index_simps add_items_map) simp
  next
    case (Inr m)
    then show ?thesis
      by (simp only: e add_shops_step map_index_simps add_items_map)
         (simp add: upd Cons.IH)
  qed
qed

text \<open>
  C9, as amended. The index construction hands every price string to \<open>Number\<close> and stores
  the result as it is; it checks nothing. Building with \<open>Number\<close> is building with the
  strings kept and converting the stored prices afterwards, so the construction fails on
  exactly the same catalogs whatever \<open>Number\<close> returns (the only failure is an empty item
  object), and a value that is no number or is negative is stored like any other.
\<close>

theorem build_index_stores_Number_unchecked:
  "build_index Number d = map_sum (\<lambda>e. e) (map_index Number) (build_index (\<lambda>str. str) d)"
proof -
  have "map_index Number \<lparr>itemToShops = Map.empty, shopList = [], shopNameToIndex = Map.empty\<rparr>
        = \<lparr>itemToShops = Map.empty, shopList = [], shopNameToIndex = Map.empty\<rparr>"
    by (simp add: map_index_def map_options_def)
  then show ?thesis
    unfolding build_index_def using add_shops_map [of Number d] by metis
qed

lemma add_items_succeeds:
  "[] \<notin> set items \<Longrightarrow> \<exists>m'. add_items f shopName k items m = Inr m'"
proof (induction items arbitrary: m)
  case Nil
  then show ?case by simp
next
  case (Cons itemObj items)
  then obtain entry others where o: "itemObj = entry # others" by (cases itemObj) auto
  obtain ident priceStr where e: "entry = (ident, priceStr)" by (cases entry)
  from Cons have "[] \<notin> set items" by simp
  from Cons.IH [OF this] show ?case
    unfolding o e add_items_step by blast
qed

lemma add_shops_succeeds:
  assumes "distinct (map fst d)"
    and "\<forall>(shopName, items) \<in> set d. [] \<notin> set items"
    and "set (shopList ix) \<inter> fst ` set d = {}"
    and "dom (shopNameToIndex ix) = set (shopList ix)"
    and "\<forall>k < length (shopList ix). shopNameToIndex ix (shopList ix ! k) = Some k"
  shows "\<exists>ix'. add_shops f d ix = Inr ix' \<and> shopList ix' = shopList ix @ map fst d \<and>
           (\<forall>k < length (shopList ix'). shopNameToIndex ix' (shopList ix' ! k) = Some k)"
  using assms
proof (induction d arbitrary: ix)
  case Nil
  then show ?case by simp
next
  case (Cons entry rest)
  obtain shopName items where e: "entry = (shopName, items)" by (cases entry)
  from Cons.prems(3) have new: "shopName \<notin> set (shopList ix)" by (auto simp: e)
  with Cons.prems(4) have none: "shopNameToIndex ix shopName = None" by (auto simp: dom_def)
  from Cons.prems(2) have "[] \<notin> set items" by (auto simp: e)
  from add_items_succeeds [OF this] obtain m where
    m: "add_items f shopName (length (shopList ix)) items (itemToShops ix) = Inr m" by blast
  let ?ix1 = "ix\<lparr>shopNameToIndex := (shopNameToIndex ix)(shopName \<mapsto> length (shopList ix)),
                 shopList := shopList ix @ [shopName], itemToShops := m\<rparr>"
  have step: "add_shops f (entry # rest) ix = add_shops f rest ?ix1"
    by (simp add: e add_shops_step none m)
  have 1: "distinct (map fst rest)" using Cons.prems(1) by simp
  have 2: "\<forall>(shopName, items) \<in> set rest. [] \<notin> set items" using Cons.prems(2) by simp
  have 3: "set (shopList ?ix1) \<inter> fst ` set rest = {}"
    using Cons.prems(1,3) by (auto simp: e)
  have 4: "dom (shopNameToIndex ?ix1) = set (shopList ?ix1)"
    using Cons.prems(4) by auto
  have 5: "\<forall>k < length (shopList ?ix1). shopNameToIndex ?ix1 (shopList ?ix1 ! k) = Some k"
    using Cons.prems(5) new by (auto simp: nth_append less_Suc_eq)
  from Cons.IH [OF 1 2 3 4 5] show ?case
    unfolding step by (simp add: e)
qed

text \<open>
  C8, as amended. The index construction has no limit on the number of shops: for every
  well-formed catalog (distinct shop names, no empty item object) it succeeds and
  numbers the shops 0, 1, 2, ... in order of appearance. The mask bit of a shop is taken
  modulo 32, so shops whose numbers differ by 32 share a bit.
\<close>

theorem build_index_any_number_of_shops:
  assumes "well_formed d"
  shows "\<exists>ix. build_index Number d = Inr ix \<and> shopList ix = map fst d \<and>
              (\<forall>k < length d. shopNameToIndex ix (fst (d ! k)) = Some k) \<and>
              (\<forall>k. shop_bit (k + 32) = shop_bit k)"
proof -
  let ?ix0 = "\<lparr>itemToShops = Map.empty, shopList = [], shopNameToIndex = Map.empty\<rparr> :: 'a Index"
  from assms have d: "distinct (map fst d)"
    and w: "\<forall>(shopName, items) \<in> set d. [] \<notin> set items"
    by (force simp: well_formed_def list_all_iff)+
  from add_shops_succeeds [OF d w, of ?ix0 Number]
  obtain ix where ix: "add_shops Number d ?ix0 = Inr ix" "shopList ix = map fst d"
    "\<forall>k < length (shopList ix). shopNameToIndex ix (shopList ix ! k) = Some k" by auto
  then have "\<forall>k < length d. shopNameToIndex ix (fst (d ! k)) = Some k" by simp
  moreover have "\<forall>k. shop_bit (k + 32) = shop_bit k" by (simp add: shop_bit_def)
  ultimately show ?thesis using ix by (simp add: build_index_def)
qed

theorem build_index_any_number_of_shops_witness:
  "well_formed shops33 \<and>
   (\<exists>ix. build_index Number_dec shops33 = Inr ix \<and> length (shopList ix) = 33 \<and>
         shopNameToIndex ix (shop_name 32) = Some 32) \<and>
   shop_bit 32 = shop_bit 0"
proof -
  have w: "well_formed shops33" by code_simp
  have l: "length shops33 = 33" by code_simp
  have n: "fst (shops33 ! 32) = shop_name 32" by code_simp
  from build_index_any_number_of_shops [OF w, of Number_dec]
  obtain ix where ix: "build_index Number_dec shops33 = Inr ix" "shopList ix = map fst shops33"
    "\<forall>k < length shops33. shopNameToIndex ix (fst (shops33 ! k)) = Some k"
    and b: "\<forall>k. shop_bit (k + 32) = shop_bit k" by blast
  from ix(3) l have "shopNameToIndex ix (fst (shops33 ! 32)) = Some 32" by simp
  then have "shopNameToIndex ix (shop_name 32) = Some 32" by (simp only: n)
  moreover have "length (shopList ix) = 33" using ix(2) l by simp
  moreover have "shop_bit 32 = shop_bit 0" using b [rule_format, of 0] by simp
  ultimately show ?thesis using w ix(1) by blast
qed

text \<open>
  C8 fails: the index of \<open>shops33\<close>, a catalog of 33 shops, is built; the first and the last
  shop get the same mask bit, and the memoized program run on it lists \<^verbatim>\<open>shop32\<close> as a
  shop of a plan that buys from \<^verbatim>\<open>shop00\<close> only.
\<close>

theorem index_built_for_33_shops_with_aliased_bits:
  "\<not> isl (build_index Number_dec shops33) \<and>
   shopList (projr (build_index Number_dec shops33)) = map shop_name [0..<33] \<and>
   shopNameToIndex (projr (build_index Number_dec shops33)) (shop_name 0) = Some 0 \<and>
   shopNameToIndex (projr (build_index Number_dec shops33)) (shop_name 32) = Some 32 \<and>
   shop_bit 32 = shop_bit 0 \<and>
   bestPriceDP (index_of shops33) [''A''] =
     Some (Inr \<lparr>selectedItems = [\<lparr>id' = ''A'', shop = ''shop00'', price = 5\<rparr>],
                totalCost = Num 5, shopCount = Num 1, shops = [''shop00'', ''shop32''],
                stats = None\<rparr>)"
  by code_simp

text \<open>
  C9 fails: the index of a catalog with the prices \<^verbatim>\<open>"abc"\<close> and \<^verbatim>\<open>"-5"\<close> is
  built, holding \<^verbatim>\<open>NaN\<close> and \<open>-5\<close>, and the brute-force program reports a plan of
  cost \<open>-5\<close>.
\<close>

theorem index_built_with_NaN_and_negative_price:
  "\<not> isl (build_index Number_dec shops_bad_prices) \<and>
   itemToShops (projr (build_index Number_dec shops_bad_prices)) ''A'' =
     Some [\<lparr>PriceOption.shop = ''V1'', price = NaN, shopIndex = 0\<rparr>] \<and>
   itemToShops (projr (build_index Number_dec shops_bad_prices)) ''B'' =
     Some [\<lparr>PriceOption.shop = ''V1'', price = Finite (- 5), shopIndex = 0\<rparr>] \<and>
   bestPrice (itemToShops (index_of shops_bad_prices)) [''B''] =
     Inr \<lparr>selectedItems = [\<lparr>id' = ''B'', shop = ''V1'', price = - 5\<rparr>],
          totalCost = Num (- 5), shopCount = Num 1, shops = [''V1''], stats = None\<rparr>"
  by code_simp

section \<open>Runs on the example catalogs\<close>

lemma shops32_A:
  "itemToShops (index_of shops32) ''A'' =
     Some [\<lparr>PriceOption.shop = ''shop31'', price = 1, shopIndex = 31\<rparr>]"
  by code_simp

text \<open>
  C1 fails for the memoized program: on \<open>shops32\<close> item A has one option, at the shop of
  index 31, whose mask is negative, and \<^verbatim>\<open>popcount\<close> of a negative mask never returns.
\<close>

theorem memoized_search_loops_on_shop_31:
  "itemToShops (index_of shops32) ''A'' =
     Some [\<lparr>PriceOption.shop = ''shop31'', price = 1, shopIndex = 31\<rparr>] \<and>
   oracle_cost (itemToShops (index_of shops32)) [''A''] = 1 \<and>
   bestPriceDP (index_of shops32) [''A''] = None"
proof -
  note shops32_A
  moreover have "oracle_cost (itemToShops (index_of shops32)) [''A''] = 1"
    by (simp add: oracle_cost_def combinations_def option_lists_def plan_cost_def shops32_A)
  moreover have "bestPriceDP (index_of shops32) [''A''] = None"
    by (simp add: bestPriceDP_def shops32_A dp.simps dp_for.simps get_options_def stateKey_def
          Let_def popcount_diverges bit31_shop_bit)
  ultimately show ?thesis by blast
qed


text \<open>
  C2 fails in each program. On \<open>shops1\<close> the only cheapest combination uses two shops, and the
  brute-force and the memoized program report one; on \<open>shops2\<close> a cheapest combination with
  one shop exists, and the branch-and-bound program reports two.
\<close>

theorem reported_shopCount_is_not_the_least:
  "oracle_cost (itemToShops (index_of shops1)) [''A'', ''B''] = 15 \<and>
   oracle_vendor_count (itemToShops (index_of shops1)) [''A'', ''B''] = 2 \<and>
   map_sum (\<lambda>e. e) shopCount (bestPrice (itemToShops (index_of shops1)) [''A'', ''B'']) = Inr (Num 1) \<and>
   map_option (map_sum (\<lambda>e. e) shopCount) (bestPriceDP (index_of shops1) [''A'', ''B''])
     = Some (Inr (Num 1)) \<and>
   oracle_cost (itemToShops (index_of shops2)) [''A'', ''B''] = 15 \<and>
   oracle_vendor_count (itemToShops (index_of shops2)) [''A'', ''B''] = 1 \<and>
   map_option (map_sum (\<lambda>e. e) shopCount)
     (bestPriceDPOptimized (itemToShops (index_of shops2)) [''A'', ''B'']) = Some (Inr (Num 2))"
  by code_simp

text \<open>
  C3 fails in the brute-force and in the memoized program: on \<open>shops1\<close> both select item A
  at V1 and item B at V2 and report a shop count of 1; the memoized program also lists V1
  as the only shop.
\<close>

theorem plan_shopCount_differs_from_selected_shops:
  "bestPrice (itemToShops (index_of shops1)) [''A'', ''B''] =
     Inr \<lparr>selectedItems = [\<lparr>id' = ''A'', shop = ''V1'', price = 10\<rparr>,
                           \<lparr>id' = ''B'', shop = ''V2'', price = 5\<rparr>],
          totalCost = Num 15, shopCount = Num 1, shops = [''V1'', ''V2''], stats = None\<rparr> \<and>
   bestPriceDP (index_of shops1) [''A'', ''B''] =
     Some (Inr \<lparr>selectedItems = [\<lparr>id' = ''A'', shop = ''V1'', price = 10\<rparr>,
                                 \<lparr>id' = ''B'', shop = ''V2'', price = 5\<rparr>],
                totalCost = Num 15, shopCount = Num 1, shops = [''V1''], stats = None\<rparr>)"
  by code_simp

section \<open>Pruning rules switched off\<close>





section \<open>Requests that cannot be served\<close>

lemma has_options_drop:
  "i < length ids \<Longrightarrow>
   has_options its (drop i ids) \<longleftrightarrow>
     (case its (ids ! i) of None \<Rightarrow> False | Some os \<Rightarrow> os \<noteq> []) \<and> has_options its (drop (Suc i) ids)"
  by (simp add: Cons_nth_drop_Suc [symmetric] has_options_def)

lemma no_options_index: "\<not> has_options its (drop i ids) \<Longrightarrow> i < length ids"
  by (rule ccontr) (simp add: has_options_def)

lemma backtrack_no_solution:
  "\<not> has_options its (drop index ids) \<Longrightarrow>
     snd (snd (backtrack its ids index cs c su g)) = g"
  "\<not> has_options its (drop (Suc index) ids) \<Longrightarrow>
     snd (snd (backtrack_for its ids index opts cs c su g)) = g"
proof (induction its ids index cs c su g and its ids index opts cs c su g
       rule: backtrack_backtrack_for.induct)
  case (1 its ids index cs c su g)
  from no_options_index [OF 1(2)] have lt: "index < length ids" .
  show ?case
  proof (cases "get_options its ids index")
    case None
    then show ?thesis using lt by (subst backtrack.simps) simp
  next
    case (Some os)
    then have its: "its (ids ! index) = Some os" using lt by (simp add: get_options_def)
    show ?thesis
    proof (cases "os = []")
      case True
      then show ?thesis using lt Some
        by (subst backtrack.simps) (simp add: backtrack_for.simps)
    next
      case False
      with 1(2) its have "\<not> has_options its (drop (Suc index) ids)"
        by (simp add: has_options_drop [OF lt])
      from 1(1) [OF _ Some this] lt show ?thesis
        using Some by (subst backtrack.simps) simp
    qed
  qed
next
  case (2 its ids index cs c su g)
  then show ?case by (simp add: backtrack_for.simps)
next
  case (3 its ids index opt rest cs c su g)
  let ?call = "backtrack its ids (index + 1)
             (cs @ [\<lparr>Selection.itemId = ids ! index, shop = PriceOption.shop opt, price = PriceOption.price opt\<rparr>])
             (c + PriceOption.price opt) (Set_add (PriceOption.shop opt) su) g"
  obtain cs1 su1 g1 where call: "?call = (cs1, su1, g1)" by (cases ?call)
  from 3(1) 3(3) call have g1: "g1 = g" by simp
  from 3(2) [OF call [symmetric] refl 3(3)] show ?case
    using call g1 by (subst backtrack_for.simps) simp
qed

lemma bestPrice_no_solution:
  "\<not> has_options its ids \<Longrightarrow> bestPrice its ids = Inl NoSolution"
  using backtrack_no_solution(1) [of its 0 ids "[]" 0 "[]"
          "\<lparr>BF.bestCost = Infinity, bestShopCount = Infinity, bestSelection = []\<rparr>"]
  by (auto simp: bestPrice_def split: prod.splits)

lemma dp_no_solution:
  "\<not> has_options its (drop i ids) \<Longrightarrow> memo_inf its ids mm \<Longrightarrow>
     \<exists>r mm'. dp its ids i msk mm = Some (r, mm') \<and> cost r = Infinity \<and> memo_inf its ids mm'"
  "\<not> has_options its (drop (Suc i) ids) \<Longrightarrow> memo_inf its ids mm \<Longrightarrow>
     \<exists>mm'. dp_for its ids i msk opts l mm = Some (l, mm') \<and> memo_inf its ids mm'"
proof (induction its ids i msk mm and its ids i msk opts l mm rule: dp_dp_for.induct)
  case (1 its ids i msk mm)
  from no_options_index [OF 1(2)] have lt: "i < length ids" .
  have upd: "\<And>m' r. memo_inf its ids m' \<Longrightarrow> cost r = Infinity \<Longrightarrow>
               memo_inf its ids (m'(stateKey i msk \<mapsto> r))"
    by (auto simp: memo_inf_def stateKey_def)
  show ?case
  proof (cases "mm (stateKey i msk)")
    case (Some r)
    then have "cost r = Infinity" using 1(2,3) by (auto simp: memo_inf_def stateKey_def)
    then show ?thesis using lt Some 1(3) by (subst dp.simps) (simp add: Let_def)
  next
    case None
    show ?thesis
    proof (cases "get_options its ids i")
      case noopt: None
      then show ?thesis using lt None upd [OF 1(3)]
        by (subst dp.simps) (simp add: Let_def)
    next
      case (Some os)
      then have its: "its (ids ! i) = Some os" using lt by (simp add: get_options_def)
      show ?thesis
      proof (cases "length os = 0")
        case True
        then show ?thesis using lt None Some upd [OF 1(3)]
          by (subst dp.simps) (simp add: Let_def)
      next
        case False
        with 1(2) its have "\<not> has_options its (drop (Suc i) ids)"
          by (simp add: has_options_drop [OF lt])
        from 1(1) [OF _ refl None Some False this 1(3)] lt
        obtain mm' where
          r: "dp_for its ids i msk os \<lparr>bestOption = None, bestCost = Infinity, bestShopCount = Infinity\<rparr> mm
              = Some (\<lparr>bestOption = None, bestCost = Infinity, bestShopCount = Infinity\<rparr>, mm')"
          and ok: "memo_inf its ids mm'" by auto
        show ?thesis using lt None Some False r upd [OF ok]
          by (subst dp.simps) (simp add: Let_def)
      qed
    qed
  qed
next
  case (2 its ids i msk l mm)
  then show ?case by (simp add: dp_for.simps)
next
  case (3 its ids i msk option rest l mm)
  let ?m = "msk OR shop_bit (shopIndex option)"
  from 3(1) [OF refl] 3(4) 3(5)
  obtain fs mm1 where call: "dp its ids (i + 1) ?m mm = Some (fs, mm1)"
    and c: "cost fs = Infinity" and ok: "memo_inf its ids mm1" by auto
  from 3(3) [OF refl call refl c 3(4) ok] show ?case
    using call c by (subst dp_for.simps) (simp add: Let_def)
qed

lemma bestPriceDP_no_solution:
  "\<not> has_options (itemToShops ix) ids \<Longrightarrow> bestPriceDP ix ids = Some (Inl NoSolution)"
  using dp_no_solution(1) [of "itemToShops ix" 0 ids Map.empty 0]
  by (auto simp: bestPriceDP_def memo_inf_def)

section \<open>When the memoized search returns\<close>

text \<open>
  If the memoized search returns, then with the right cost, whatever the masks are; and it
  returns only from states from which no shop of index 31 modulo 32 is ahead: with such a
  shop \<^verbatim>\<open>popcount\<close> is called on a negative mask.
\<close>

lemma loop_update_some:
  "loop_some l \<Longrightarrow>
   loop_some (if num_lt (Num c) (DPLoop.bestCost l) \<or> (Num c = DPLoop.bestCost l \<and> q)
              then \<lparr>bestOption = Some b, bestCost = Num c, bestShopCount = y\<rparr> else l)"
  by (auto simp: loop_some_def)

lemma memo_costs_upd:
  "memo_costs its ids mm \<Longrightarrow> cost r = Num (suffix_cost its ids j) \<Longrightarrow>
   memo_costs its ids (mm((j, m) \<mapsto> r))"
  by (auto simp: memo_costs_def)

lemma dp_partial:
  "has_options its ids \<Longrightarrow> i \<le> length ids \<Longrightarrow> memo_costs its ids mm \<Longrightarrow>
   dp its ids i msk mm = Some (r, mm') \<Longrightarrow>
   cost r = Num (suffix_cost its ids i) \<and> memo_costs its ids mm'"
  "has_options its ids \<Longrightarrow> i < length ids \<Longrightarrow> memo_costs its ids mm \<Longrightarrow> loop_some l \<Longrightarrow>
   dp_for its ids i msk opts l mm = Some (l', mm') \<Longrightarrow>
   DPLoop.bestCost l' =
     fold (\<lambda>opt b. num_min b (Num (suffix_cost its ids (Suc i) + PriceOption.price opt)))
       opts (DPLoop.bestCost l) \<and>
   loop_some l' \<and> memo_costs its ids mm'"
proof (induction its ids i msk mm and its ids i msk opts l mm
       arbitrary: r mm' and l' mm' rule: dp_dp_for.induct)
  case (1 its ids i msk mm)
  note ret = 1(5)
  show ?case
  proof (cases "i = length ids")
    case True
    then show ?thesis
      using 1(4) ret by (subst (asm) dp.simps) (auto simp: suffix_cost_end)
  next
    case False
    with 1 have lt: "i < length ids" by simp
    show ?thesis
    proof (cases "mm (stateKey i msk)")
      case (Some x)
      then show ?thesis
        using False 1(4) ret by (subst (asm) dp.simps) (auto simp: memo_costs_def stateKey_def)
    next
      case None
      from get_options_has [OF 1(2) lt] obtain os where
        g: "get_options its ids i = Some os" and ne: "os \<noteq> []" and
        its: "its (ids ! i) = Some os" by blast
      have cp: "cheapest_price its (ids ! i) = Min (PriceOption.price ` set os)"
        using its ne by (simp add: cheapest_price_def)
      let ?l0 = "\<lparr>bestOption = None, bestCost = Infinity, bestShopCount = Infinity\<rparr>"
      have l0: "loop_some ?l0" by (simp add: loop_some_def)
      from ne have ne': "length os \<noteq> 0" by simp
      from ret False None g ne obtain l1 mm1 where
        r1: "dp_for its ids i msk os ?l0 mm = Some (l1, mm1)"
        by (subst (asm) dp.simps) (auto simp: Let_def split: option.splits)
      from 1(1) [OF False refl None g ne' 1(2) lt 1(4) l0 r1]
      have c: "DPLoop.bestCost l1 =
              fold (\<lambda>opt b. num_min b (Num (suffix_cost its ids (Suc i) + PriceOption.price opt)))
                os Infinity" and
        inv: "loop_some l1" and ok: "memo_costs its ids mm1"
        by auto
      from c have "DPLoop.bestCost l1 = Num (suffix_cost its ids (Suc i) + Min (PriceOption.price ` set os))"
        using ne by (simp only: num_min_fold if_False num_min.simps)
      also have "suffix_cost its ids (Suc i) + Min (PriceOption.price ` set os) = suffix_cost its ids i"
        by (simp add: suffix_cost_step [OF lt] cp)
      finally have c': "DPLoop.bestCost l1 = Num (suffix_cost its ids i)" .
      with inv obtain b where b: "bestOption l1 = Some b"
        by (auto simp: loop_some_def)
      from ret False None g ne r1 b have
        "cost r = DPLoop.bestCost l1" "\<exists>r'. mm' = mm1((i, msk) \<mapsto> r') \<and> cost r' = DPLoop.bestCost l1"
        by (subst (asm) dp.simps, auto simp: Let_def stateKey_def)+
      with c' ok show ?thesis by (auto intro: memo_costs_upd)
    qed
  qed
next
  case (2 its ids i msk l mm)
  then show ?case by (simp add: dp_for.simps)
next
  case (3 its ids i msk option rest l mm)
  let ?m = "msk OR shop_bit (shopIndex option)"
  note ret = 3(8)
  from ret obtain fs mm1 where call: "dp its ids (i + 1) ?m mm = Some (fs, mm1)"
    by (subst (asm) dp_for.simps) (auto simp: Let_def split: option.splits)
  from 3(1) [OF refl 3(4) _ 3(6) call] 3(5)
  have cost: "cost fs = Num (suffix_cost its ids (Suc i))" and ok1: "memo_costs its ids mm1"
    by auto
  from ret call cost obtain k where pk: "popcount ?m = Some k"
    by (subst (asm) dp_for.simps) (auto simp: Let_def split: option.splits)
  let ?c = "PriceOption.price option + suffix_cost its ids (Suc i)"
  let ?b = "\<lparr>BestOption.itemId = ids ! i, shop = PriceOption.shop option,
              price = PriceOption.price option, futureState = fs, newShopsBitmask = ?m\<rparr>"
  let ?l1 = "if num_lt (Num ?c) (DPLoop.bestCost l) \<or>
                (Num ?c = DPLoop.bestCost l \<and> num_lt (Num (int k)) (DPLoop.bestShopCount l))
             then \<lparr>bestOption = Some ?b, bestCost = Num ?c, bestShopCount = Num (int k)\<rparr>
             else l"
  have inv1: "loop_some ?l1" using 3(7) by (rule loop_update_some)
  have c1: "DPLoop.bestCost ?l1 = num_min (DPLoop.bestCost l) (Num ?c)"
    by (rule loop_update_cost)
  from ret call cost pk have r: "dp_for its ids i msk rest ?l1 mm1 = Some (l', mm')"
    by (subst (asm) dp_for.simps) (simp add: Let_def)
  from 3(2) [OF refl call refl cost refl pk 3(4) 3(5) ok1 inv1 r]
  show ?case by (simp add: c1 add.commute)
qed

lemma no_bit31_drop:
  "i < length ids \<Longrightarrow>
   no_bit31 its (drop i ids) \<longleftrightarrow>
     (case its (ids ! i) of None \<Rightarrow> True | Some os \<Rightarrow> \<forall>opt \<in> set os. shopIndex opt mod 32 \<noteq> 31) \<and>
     no_bit31 its (drop (Suc i) ids)"
  by (simp add: Cons_nth_drop_Suc [symmetric] no_bit31_def)

lemma no_bit31_end: "no_bit31 its []"
  by (simp add: no_bit31_def)

lemma memo_clear_upd:
  "memo_clear its ids mm \<Longrightarrow> \<not> bit m 31 \<Longrightarrow> no_bit31 its (drop j ids) \<Longrightarrow>
   memo_clear its ids (mm((j, m) \<mapsto> r))"
  by (auto simp: memo_clear_def)

lemma popcount_Some_bit: "popcount n = Some k \<Longrightarrow> \<not> bit n 31"
  using popcount_diverges [of n] by auto

lemma dp_returns_clear:
  "has_options its ids \<Longrightarrow> i \<le> length ids \<Longrightarrow> memo_costs its ids mm \<Longrightarrow>
   memo_clear its ids mm \<Longrightarrow> dp its ids i msk mm = Some (r, mm') \<Longrightarrow>
   (i < length ids \<longrightarrow> \<not> bit msk 31) \<and> no_bit31 its (drop i ids) \<and> memo_clear its ids mm'"
  "has_options its ids \<Longrightarrow> i < length ids \<Longrightarrow> memo_costs its ids mm \<Longrightarrow>
   memo_clear its ids mm \<Longrightarrow> dp_for its ids i msk opts l mm = Some (l', mm') \<Longrightarrow>
   (\<forall>opt \<in> set opts. shopIndex opt mod 32 \<noteq> 31) \<and>
   (opts \<noteq> [] \<longrightarrow> \<not> bit msk 31 \<and> no_bit31 its (drop (Suc i) ids)) \<and> memo_clear its ids mm'"
proof (induction its ids i msk mm and its ids i msk opts l mm
       arbitrary: r mm' and l' mm' rule: dp_dp_for.induct)
  case (1 its ids i msk mm)
  note ret = 1(6)
  show ?case
  proof (cases "i = length ids")
    case True
    then show ?thesis
      using 1(5) ret by (subst (asm) dp.simps) (auto simp: no_bit31_end)
  next
    case False
    with 1 have lt: "i < length ids" by simp
    show ?thesis
    proof (cases "mm (stateKey i msk)")
      case (Some x)
      with ret False have "mm' = mm" by (subst (asm) dp.simps) (auto simp: Let_def)
      moreover from Some 1(5) have "\<not> bit msk 31 \<and> no_bit31 its (drop i ids)"
        unfolding memo_clear_def stateKey_def by blast
      ultimately show ?thesis using 1(5) by simp
    next
      case None
      from get_options_has [OF 1(2) lt] obtain os where
        g: "get_options its ids i = Some os" and ne: "os \<noteq> []" and
        its: "its (ids ! i) = Some os" by blast
      let ?l0 = "\<lparr>bestOption = None, bestCost = Infinity, bestShopCount = Infinity\<rparr>"
      from ne have ne': "length os \<noteq> 0" by simp
      from ret False None g ne obtain l1 mm1 where
        r1: "dp_for its ids i msk os ?l0 mm = Some (l1, mm1)"
        by (subst (asm) dp.simps) (auto simp: Let_def split: option.splits)
      from ret False None g ne r1 have mm': "\<exists>r'. mm' = mm1((i, msk) \<mapsto> r')"
        by (subst (asm) dp.simps) (auto simp: Let_def stateKey_def split: option.splits)
      from 1(1) [OF False refl None g ne' 1(2) lt 1(4) 1(5) r1] ne
      have a: "\<forall>opt \<in> set os. shopIndex opt mod 32 \<noteq> 31"
        and b: "\<not> bit msk 31" "no_bit31 its (drop (Suc i) ids)"
        and c: "memo_clear its ids mm1" by auto
      from a b(2) its have d: "no_bit31 its (drop i ids)"
        by (simp add: no_bit31_drop [OF lt])
      from mm' c b(1) d show ?thesis by (auto intro: memo_clear_upd)
    qed
  qed
next
  case (2 its ids i msk l mm)
  then show ?case by (simp add: dp_for.simps)
next
  case (3 its ids i msk option rest l mm)
  let ?m = "msk OR shop_bit (shopIndex option)"
  note ret = 3(8)
  from ret obtain fs mm1 where call: "dp its ids (i + 1) ?m mm = Some (fs, mm1)"
    by (subst (asm) dp_for.simps) (auto simp: Let_def split: option.splits)
  from 3(5) have le: "i + 1 \<le> length ids" by simp
  from 3(1) [OF refl 3(4) le 3(6) 3(7) call]
  have n1: "no_bit31 its (drop (Suc i) ids)" and c1: "memo_clear its ids mm1" by auto
  from dp_partial(1) [OF 3(4) le 3(6) call]
  have cost: "cost fs = Num (suffix_cost its ids (Suc i))" and ok1: "memo_costs its ids mm1"
    by auto
  from ret call cost obtain k where pk: "popcount ?m = Some k"
    by (subst (asm) dp_for.simps) (auto simp: Let_def split: option.splits)
  from popcount_Some_bit [OF pk] have nb: "\<not> bit msk 31" "shopIndex option mod 32 \<noteq> 31"
    by (auto simp: bit31_or)
  let ?c = "PriceOption.price option + suffix_cost its ids (Suc i)"
  let ?b = "\<lparr>BestOption.itemId = ids ! i, shop = PriceOption.shop option,
              price = PriceOption.price option, futureState = fs, newShopsBitmask = ?m\<rparr>"
  let ?l1 = "if num_lt (Num ?c) (DPLoop.bestCost l) \<or>
                (Num ?c = DPLoop.bestCost l \<and> num_lt (Num (int k)) (DPLoop.bestShopCount l))
             then \<lparr>bestOption = Some ?b, bestCost = Num ?c, bestShopCount = Num (int k)\<rparr>
             else l"
  from ret call cost pk have r: "dp_for its ids i msk rest ?l1 mm1 = Some (l', mm')"
    by (subst (asm) dp_for.simps) (simp add: Let_def)
  from 3(2) [OF refl call refl cost refl pk 3(4) 3(5) ok1 c1 r] nb n1
  show ?case by simp
qed

lemma bestPriceDP_diverges:
  assumes "has_options (itemToShops ix) ids" "\<not> no_bit31 (itemToShops ix) ids"
  shows "bestPriceDP ix ids = None"
proof (cases "dp (itemToShops ix) ids 0 0 Map.empty")
  case None
  then show ?thesis by (simp add: bestPriceDP_def)
next
  case (Some a)
  obtain r mm where "a = (r, mm)" by (cases a)
  with Some have d: "dp (itemToShops ix) ids 0 0 Map.empty = Some (r, mm)" by simp
  have "memo_costs (itemToShops ix) ids Map.empty" "memo_clear (itemToShops ix) ids Map.empty"
    by (simp_all add: memo_costs_def memo_clear_def)
  from dp_returns_clear(1) [OF assms(1) _ this d] assms(2) show ?thesis by simp
qed





section \<open>What the memo of the branch-and-bound search holds\<close>











section \<open>Every requested item has an option\<close>

text \<open>
  The scripts draw the request from \<^verbatim>\<open>Array.from(itemToShops.keys())\<close>, and a key enters
  the index together with its first option.
\<close>

lemma add_items_nonempty:
  "add_items f shopName k items m = Inr m' \<Longrightarrow> \<forall>i os. m i = Some os \<longrightarrow> os \<noteq> [] \<Longrightarrow>
   m' i = Some os \<Longrightarrow> os \<noteq> []"
proof (induction items arbitrary: m)
  case Nil
  then show ?case by simp
next
  case (Cons itemObj items)
  show ?case
  proof (cases itemObj)
    case Nil
    with Cons.prems(1) show ?thesis by simp
  next
    case (Cons e others)
    obtain ident priceStr where e: "e = (ident, priceStr)" by (cases e)
    let ?m1 = "m(ident \<mapsto> (case m ident of None \<Rightarrow> [] | Some os \<Rightarrow> os) @
                 [\<lparr>PriceOption.shop = shopName, price = f priceStr, shopIndex = k\<rparr>])"
    from Cons.prems(1) have r: "add_items f shopName k items ?m1 = Inr m'"
      unfolding Cons e add_items_step .
    have "\<forall>i os. ?m1 i = Some os \<longrightarrow> os \<noteq> []" using Cons.prems(2) by auto
    from Cons.IH [OF r this Cons.prems(3)] show ?thesis .
  qed
qed

lemma add_shops_nonempty:
  "add_shops f d ix = Inr ix' \<Longrightarrow> \<forall>i os. itemToShops ix i = Some os \<longrightarrow> os \<noteq> [] \<Longrightarrow>
   itemToShops ix' i = Some os \<Longrightarrow> os \<noteq> []"
proof (induction d arbitrary: ix)
  case Nil
  then show ?case by simp
next
  case (Cons entry d)
  obtain shopName items where entry: "entry = (shopName, items)" by (cases entry)
  let ?k = "case shopNameToIndex ix shopName of None \<Rightarrow> length (shopList ix) | Some k \<Rightarrow> k"
  let ?ix1 = "case shopNameToIndex ix shopName of
                None \<Rightarrow> ix\<lparr>shopNameToIndex := (shopNameToIndex ix)(shopName \<mapsto> length (shopList ix)),
                           shopList := shopList ix @ [shopName]\<rparr>
              | Some k \<Rightarrow> ix"
  from Cons.prems(1) obtain m where
    m: "add_items f shopName ?k items (itemToShops ix) = Inr m" and
    r: "add_shops f d (?ix1\<lparr>itemToShops := m\<rparr>) = Inr ix'"
    unfolding entry add_shops_step by (auto split: sum.splits)
  have "\<forall>i os. itemToShops (?ix1\<lparr>itemToShops := m\<rparr>) i = Some os \<longrightarrow> os \<noteq> []"
    using add_items_nonempty [OF m Cons.prems(2)] by simp
  from Cons.IH [OF r this Cons.prems(3)] show ?case .
qed

lemma build_index_has_options:
  assumes "build_index f d = Inr ix" "set ids \<subseteq> dom (itemToShops ix)"
  shows "has_options (itemToShops ix) ids"
proof -
  have "\<And>i os. itemToShops ix i = Some os \<Longrightarrow> os \<noteq> []"
    using add_shops_nonempty [OF assms(1) [unfolded build_index_def]] by simp
  with assms(2) show ?thesis
    by (auto simp: has_options_def split: option.splits)
qed

lemma shops1_built: "build_index Number_int shops1 = Inr (index_of shops1)"
  by (simp add: example_simps shops1_def)

text \<open>
  C4 fails for the memoized program: on \<open>shops32\<close> the requested item has an option, the
  brute-force and the branch-and-bound program produce the plan, and the memoized program
  never returns.
\<close>

theorem memoized_program_gives_no_plan_for_shop_31:
  "has_options (itemToShops (index_of shops32)) [''A''] \<and>
   bestPrice (itemToShops (index_of shops32)) [''A''] =
     Inr \<lparr>selectedItems = [\<lparr>id' = ''A'', shop = ''shop31'', price = 1\<rparr>],
          totalCost = Num 1, shopCount = Num 1, shops = [''shop31''], stats = None\<rparr> \<and>
   bestPriceDPOptimized (itemToShops (index_of shops32)) [''A''] =
     Some (Inr \<lparr>selectedItems = [\<lparr>id' = ''A'', shop = ''shop31'', price = 1\<rparr>],
                totalCost = Num 1, shopCount = Num 1, shops = [''shop31''],
                stats = Some \<lparr>Stats.statesExplored = 1, statesPruned = 1, memoHits = 0\<rparr>\<rparr>) \<and>
   bestPriceDP (index_of shops32) [''A''] = None"
proof -
  have "has_options (itemToShops (index_of shops32)) [''A'']"
    by (simp add: has_options_def shops32_A)
  moreover have
    "bestPrice (itemToShops (index_of shops32)) [''A''] =
       Inr \<lparr>selectedItems = [\<lparr>id' = ''A'', shop = ''shop31'', price = 1\<rparr>],
            totalCost = Num 1, shopCount = Num 1, shops = [''shop31''], stats = None\<rparr>"
    by code_simp
  moreover have
    "bestPriceDPOptimized (itemToShops (index_of shops32)) [''A''] =
       Some (Inr \<lparr>selectedItems = [\<lparr>id' = ''A'', shop = ''shop31'', price = 1\<rparr>],
                  totalCost = Num 1, shopCount = Num 1, shops = [''shop31''],
                  stats = Some \<lparr>Stats.statesExplored = 1, statesPruned = 1, memoHits = 0\<rparr>\<rparr>)"
    by code_simp
  moreover have "bestPriceDP (index_of shops32) [''A''] = None"
    by (simp add: bestPriceDP_def shops32_A dp.simps dp_for.simps get_options_def stateKey_def
          Let_def popcount_diverges bit31_shop_bit)
  ultimately show ?thesis by blast
qed

text \<open>
  C4, as amended. Every key of a built index has an option, so a request drawn from the keys
  has no item without option. When every requested item has an option, the brute-force and
  the branch-and-bound program produce a plan; the memoized program produces one when no
  option of a requested item belongs to a shop whose index is 31 modulo 32, and never returns
  otherwise. On a request with an item without option the brute-force and the memoized
  program report that there is no solution.
\<close>

theorem request_from_the_catalog_gets_a_plan:
  "(build_index Number d = Inr ix \<and> set ids \<subseteq> dom (itemToShops ix) \<longrightarrow>
      has_options (itemToShops ix) ids) \<and>
   (has_options (itemToShops ix) ids \<and> ids \<noteq> [] \<longrightarrow>
      (\<exists>r. bestPrice (itemToShops ix) ids = Inr r) \<and>
      (\<exists>r. bestPriceDPOptimized (itemToShops ix) ids = Some (Inr r)) \<and>
      (if no_bit31 (itemToShops ix) ids then \<exists>r. bestPriceDP ix ids = Some (Inr r)
       else bestPriceDP ix ids = None)) \<and>
   (\<not> has_options (itemToShops ix) ids \<longrightarrow>
      bestPrice (itemToShops ix) ids = Inl NoSolution \<and>
      bestPriceDP ix ids = Some (Inl NoSolution))"
proof (intro conjI impI)
  assume "build_index Number d = Inr ix \<and> set ids \<subseteq> dom (itemToShops ix)"
  then show "has_options (itemToShops ix) ids"
    using build_index_has_options [of Number d ix ids] by simp
next
  assume a: "has_options (itemToShops ix) ids \<and> ids \<noteq> []"
  then show "\<exists>r. bestPrice (itemToShops ix) ids = Inr r"
    using bestPrice_cost [of "itemToShops ix" ids] by blast
  from a show "\<exists>r. bestPriceDPOptimized (itemToShops ix) ids = Some (Inr r)"
    using bestPriceDPOptimized_cost [of "itemToShops ix" ids] by blast
  from a show "if no_bit31 (itemToShops ix) ids then \<exists>r. bestPriceDP ix ids = Some (Inr r)
               else bestPriceDP ix ids = None"
    using bestPriceDP_cost [of ix ids] bestPriceDP_diverges [of ix ids] by auto
next
  assume "\<not> has_options (itemToShops ix) ids"
  then show "bestPrice (itemToShops ix) ids = Inl NoSolution"
    and "bestPriceDP ix ids = Some (Inl NoSolution)"
    by (simp_all add: bestPrice_no_solution bestPriceDP_no_solution)
qed

theorem request_from_the_catalog_gets_a_plan_witness:
  "build_index Number_int shops1 = Inr (index_of shops1) \<and>
   set [''A'', ''B''] \<subseteq> dom (itemToShops (index_of shops1)) \<and>
   has_options (itemToShops (index_of shops1)) [''A'', ''B''] \<and>
   [''A'', ''B''] \<noteq> [] \<and>
   no_bit31 (itemToShops (index_of shops1)) [''A'', ''B''] \<and>
   (\<exists>r. bestPrice (itemToShops (index_of shops1)) [''A'', ''B''] = Inr r) \<and>
   (\<exists>r. bestPriceDPOptimized (itemToShops (index_of shops1)) [''A'', ''B''] = Some (Inr r)) \<and>
   (\<exists>r. bestPriceDP (index_of shops1) [''A'', ''B''] = Some (Inr r)) \<and>
   has_options (itemToShops (index_of shops32)) [''A''] \<and>
   \<not> no_bit31 (itemToShops (index_of shops32)) [''A''] \<and>
   bestPriceDP (index_of shops32) [''A''] = None \<and>
   \<not> has_options (itemToShops (index_of shops1)) [''C''] \<and>
   bestPrice (itemToShops (index_of shops1)) [''C''] = Inl NoSolution \<and>
   bestPriceDP (index_of shops1) [''C''] = Some (Inl NoSolution)"
proof -
  let ?ix = "index_of shops1"
  have s: "set [''A'', ''B''] \<subseteq> dom (itemToShops ?ix)"
    by (simp add: shops1_index)
  have n: "no_bit31 (itemToShops ?ix) [''A'', ''B'']"
    by (simp add: no_bit31_def shops1_index)
  have h32: "has_options (itemToShops (index_of shops32)) [''A'']"
    by (simp add: has_options_def shops32_A)
  have n32: "\<not> no_bit31 (itemToShops (index_of shops32)) [''A'']"
    by (simp add: no_bit31_def shops32_A)
  have hC: "\<not> has_options (itemToShops ?ix) [''C'']"
    by (simp add: has_options_def shops1_index)
  from request_from_the_catalog_gets_a_plan [of Number_int shops1 ?ix "[''A'', ''B'']"]
    request_from_the_catalog_gets_a_plan [of Number_int shops32 "index_of shops32" "[''A'']"]
    request_from_the_catalog_gets_a_plan [of Number_int shops1 ?ix "[''C'']"]
    shops1_built s n h32 n32 hC
  show ?thesis by simp
qed

text \<open>
  A request for an item that is no key of the index cannot come from the scripts. Were it
  made, the branch-and-bound script would not report that there is no solution: its greedy
  bound skips the item, the ceiling is finite, and \<^verbatim>\<open>reconstruct\<close> spreads an
  undefined option list.
\<close>

lemma request_outside_the_catalog:
  "itemToShops (index_of shops1) ''C'' = None \<and>
   bestPriceDPOptimized (itemToShops (index_of shops1)) [''C''] = Some (Inl TypeError) \<and>
   bestPriceDPOptimized (itemToShops (index_of shops1)) [''A'', ''C''] = Some (Inl TypeError) \<and>
   bestPrice (itemToShops (index_of shops1)) [''C''] = Inl NoSolution \<and>
   bestPriceDP (index_of shops1) [''C''] = Some (Inl NoSolution)"
  by code_simp

end
